theory Spec2Isabelle
  imports Complex_Main
begin

section \<open>Strings: the Python built-ins the retriever relies on\<close>

text \<open>
  Python \<open>str\<close> values are modelled as \<open>string\<close>; a character stands for a code point
  below 256. \<open>str.isspace\<close> is true on exactly the twelve code points listed in
  \<open>whitespace\<close> in that range.
\<close>

definition whitespace :: "char list" where
  "whitespace = [CHR 0x09, CHR 0x0A, CHR 0x0B, CHR 0x0C, CHR 0x0D,
                 CHR 0x1C, CHR 0x1D, CHR 0x1E, CHR 0x1F, CHR 0x20, CHR 0x85, CHR 0xA0]"

definition isspace :: "char \<Rightarrow> bool" where
  "isspace c = (c \<in> set whitespace)"

text \<open>\<open>s.strip()\<close>: drop the leading and the trailing whitespace.\<close>

definition strip :: "string \<Rightarrow> string" where
  "strip s = rev (dropWhile isspace (rev (dropWhile isspace s)))"

text \<open>
  \<open>s.split(sep)\<close> for a non-empty separator: scan from the left, cut at the leftmost
  occurrence, continue behind it. \<open>cur\<close> holds the characters of the piece being read,
  latest first. (Python raises \<open>ValueError\<close> on an empty separator; every call in the
  program passes a non-empty literal, and the scan then never cuts.)
\<close>

function str_split_from :: "string \<Rightarrow> string \<Rightarrow> string \<Rightarrow> string list" where
  "str_split_from sep cur [] = [rev cur]"
| "str_split_from sep cur (c # cs) =
     (if sep \<noteq> [] \<and> take (length sep) (c # cs) = sep
      then rev cur # str_split_from sep [] (drop (length sep) (c # cs))
      else str_split_from sep (c # cur) cs)"
  by pat_completeness auto
termination
  by (relation "measure (\<lambda>(sep, cur, s). length s)") auto

definition str_split :: "string \<Rightarrow> string \<Rightarrow> string list" where
  "str_split sep s = str_split_from sep [] s"

text \<open>\<open>sep.join(xs)\<close>.\<close>

fun str_join :: "string \<Rightarrow> string list \<Rightarrow> string" where
  "str_join sep [] = []"
| "str_join sep [x] = x"
| "str_join sep (x # y # ys) = x @ sep @ str_join sep (y # ys)"

text \<open>\<open>s.replace(old, new)\<close> for a non-empty \<open>old\<close>: leftmost occurrences, not overlapping.\<close>

function str_replace :: "string \<Rightarrow> string \<Rightarrow> string \<Rightarrow> string" where
  "str_replace old new [] = []"
| "str_replace old new (c # cs) =
     (if old \<noteq> [] \<and> take (length old) (c # cs) = old
      then new @ str_replace old new (drop (length old) (c # cs))
      else c # str_replace old new cs)"
  by pat_completeness auto
termination
  by (relation "measure (\<lambda>(old, new, s). length s)") auto

text \<open>\<open>sep in s\<close>: the separator occurs somewhere in the string.\<close>

fun occurs_in :: "string \<Rightarrow> string \<Rightarrow> bool" where
  "occurs_in sep [] = (sep = [])"
| "occurs_in sep (c # cs) = (take (length sep) (c # cs) = sep \<or> occurs_in sep cs)"

section \<open>Errors and the outside world\<close>

text \<open>
  The exceptions the code can meet, all subclasses of \<open>Exception\<close>. A function that may
  raise returns \<open>error + 'a\<close>, with \<open>Inl\<close> the exception that leaves it.
  \<open>ProviderError\<close> stands for whatever the embedding provider raises.
\<close>

datatype error =
    FileNotFoundError | ValueError | IndexError | AssertionError
  | RuntimeError | AttributeError | TypeError | ProviderError

text \<open>
  A FAISS \<open>IndexFlatL2\<close>: its dimension and the stored vectors in insertion order.
  Vector components are real numbers; float32 rounding, infinities and NaN are outside
  the model.
\<close>

record faiss_index =
  faiss_d :: nat
  vectors :: "real list list"

definition ntotal :: "faiss_index \<Rightarrow> nat" where
  "ntotal ix = length (vectors ix)"

definition IndexFlatL2 :: "nat \<Rightarrow> faiss_index" where
  "IndexFlatL2 dd = \<lparr>faiss_d = dd, vectors = []\<rparr>"

text \<open>\<open>index.add(x)\<close> appends the rows of \<open>x\<close>; FAISS asserts that each has the index's dimension.\<close>

definition index_add :: "faiss_index \<Rightarrow> real list list \<Rightarrow> error + faiss_index" where
  "index_add ix x =
     (if \<forall>v \<in> set x. length v = faiss_d ix then Inr (ix\<lparr>vectors := vectors ix @ x\<rparr>)
      else Inl AssertionError)"

text \<open>
  \<open>np.array(embeddings, dtype="float32").shape[1]\<close>: rows of unequal length make
  \<open>np.array\<close> raise \<open>ValueError\<close>; with no row the array is one-dimensional and
  \<open>shape[1]\<close> raises \<open>IndexError\<close>.
\<close>

definition shape1 :: "real list list \<Rightarrow> error + nat" where
  "shape1 x =
     (case x of
        [] \<Rightarrow> Inl IndexError
      | v # vs \<Rightarrow> if \<forall>w \<in> set vs. length w = length v then Inr (length v) else Inl ValueError)"

definition l2sqr :: "real list \<Rightarrow> real list \<Rightarrow> real" where
  "l2sqr x y = sum_list (map (\<lambda>(a, b). (a - b) ^ 2) (zip x y))"

definition FLT_MAX :: real where
  "FLT_MAX = 340282346638528859811704183484516925440"

text \<open>
  \<open>index.search(x, k)\<close> for one query row: FAISS asserts the dimension and \<open>k > 0\<close>, then
  returns exactly \<open>k\<close> (distance, label) pairs: the nearest stored vectors by squared L2
  distance, nearest first (equal distances by ascending label), and, when fewer than
  \<open>k\<close> vectors are stored, the remaining slots filled with label \<open>-1\<close>.
\<close>

definition index_search :: "faiss_index \<Rightarrow> real list \<Rightarrow> int \<Rightarrow> error + (real \<times> int) list" where
  "index_search ix x k =
     (if length x \<noteq> faiss_d ix then Inl AssertionError
      else if k \<le> 0 then Inl AssertionError
      else
        let found = take (nat k) (sort_key (\<lambda>i. l2sqr x (vectors ix ! i)) [0..<ntotal ix])
        in Inr (map (\<lambda>i. (l2sqr x (vectors ix ! i), int i)) found
                @ replicate (nat k - length found) (FLT_MAX, - 1)))"

text \<open>
  The files the retriever touches. The index file is opaque to the program: it either
  deserialises to an index or makes \<open>faiss.read_index\<close> raise. \<open>None\<close> is an absent file.
  Writing is assumed to succeed.
\<close>

datatype index_blob = Serialized faiss_index | Garbage

record disk =
  knowledge_file :: "string option"
  index_file :: "index_blob option"
  text_file :: "string option"

definition read_index :: "index_blob option \<Rightarrow> error + faiss_index" where
  "read_index f =
     (case f of None \<Rightarrow> Inl RuntimeError | Some Garbage \<Rightarrow> Inl RuntimeError
      | Some (Serialized ix) \<Rightarrow> Inr ix)"

definition write_index :: "faiss_index \<Rightarrow> disk \<Rightarrow> disk" where
  "write_index ix fs = fs\<lparr>index_file := Some (Serialized ix)\<rparr>"

text \<open>
  The embedding service's \<open>generate_embeddings\<close>: a list of texts to a list of vectors, or
  an exception of the provider.
\<close>

type_synonym embedder = "string list \<Rightarrow> error + real list list"

section \<open>FaissRetriever (agent\_setup.py)\<close>

record retriever =
  embedding_service :: "embedder option"
  index :: "faiss_index option"
  chunks_with_content :: "string list"
  initialized :: bool

text \<open>The object as \<open>__init__\<close> leaves it.\<close>

definition FaissRetriever :: "embedder option \<Rightarrow> retriever" where
  "FaissRetriever embedding_svc =
     \<lparr>embedding_service = embedding_svc, index = None, chunks_with_content = [],
      initialized = False\<rparr>"

definition separator :: string where
  "separator = ''\<newline><---CHUNK_SEPARATOR--->\<newline>''"

text \<open>\<open>[chunk.strip() for chunk in chunks if chunk.strip()]\<close>, in \<open>build\<close>, \<open>load\<close> and \<open>chunk_text\<close>.\<close>

definition stripped_chunks :: "string list \<Rightarrow> string list" where
  "stripped_chunks chunks = map strip (filter (\<lambda>chunk. strip chunk \<noteq> []) chunks)"

text \<open>
  \<open>save\<close>: nothing is written without an index; otherwise the index file and the text
  file are replaced.
\<close>

definition save :: "retriever \<Rightarrow> disk \<Rightarrow> disk" where
  "save r fs =
     (case index r of
        None \<Rightarrow> fs
      | Some ix \<Rightarrow>
          (write_index ix fs)\<lparr>text_file := Some (str_join separator (chunks_with_content r))\<rparr>)"

text \<open>
  \<open>build\<close> returns \<open>None\<close> on every path. The value on the right of its result names the
  path taken, which the program shows only on the console:
  \<open>Built\<close> for "FAISS index built with ... vectors" followed by the save,
  \<open>No_embedding_service\<close> for "Error: Embedding service not available for building index.",
  \<open>No_chunks\<close> for "Warning: No text chunks found in knowledge file.",
  \<open>Build_error e\<close> for "Error building FAISS index: e".
\<close>

datatype build_report = Built | No_embedding_service | No_chunks | Build_error error

text \<open>The body of the \<open>try\<close> in \<open>build\<close>; assignments made before an exception stay.\<close>

definition build_try :: "embedder \<Rightarrow> retriever \<Rightarrow> disk \<Rightarrow> (error + build_report) \<times> retriever \<times> disk" where
  "build_try svc r fs =
     (case knowledge_file fs of
        None \<Rightarrow> (Inl FileNotFoundError, r, fs)
      | Some content \<Rightarrow>
          let chunks = str_split ''\<newline>\<newline>'' content;
              r1 = r\<lparr>chunks_with_content := stripped_chunks chunks\<rparr>
          in if chunks_with_content r1 = [] then (Inr No_chunks, r1, fs)
             else
               (case svc (chunks_with_content r1) of
                  Inl e \<Rightarrow> (Inl e, r1, fs)
                | Inr embeddings \<Rightarrow>
                    (case shape1 embeddings of
                       Inl e \<Rightarrow> (Inl e, r1, fs)
                     | Inr dd \<Rightarrow>
                         (case index_add (IndexFlatL2 dd) embeddings of
                            Inl e \<Rightarrow> (Inl e, r1\<lparr>index := Some (IndexFlatL2 dd)\<rparr>, fs)
                          | Inr ix \<Rightarrow>
                              let r2 = r1\<lparr>index := Some ix\<rparr>
                              in (Inr Built, r2, save r2 fs)))))"

definition build :: "retriever \<Rightarrow> disk \<Rightarrow> (error + build_report) \<times> retriever \<times> disk" where
  "build r fs =
     (case embedding_service r of
        None \<Rightarrow> (Inr No_embedding_service, r, fs)
      | Some svc \<Rightarrow>
          (case build_try svc r fs of
             (Inl e, r', fs') \<Rightarrow> (Inr (Build_error e), r', fs')
           | (Inr rep, r', fs') \<Rightarrow> (Inr rep, r', fs')))"

text \<open>
  \<open>load\<close>: \<open>Loaded\<close> for "FAISS index (...) and ... text chunks loaded.",
  \<open>Rebuilt rep\<close> for "Will attempt to rebuild." followed by \<open>build\<close> on path \<open>rep\<close>.
\<close>

datatype load_report = Loaded | Rebuilt build_report

text \<open>
  The body of the \<open>try\<close> in \<open>load\<close>. A FAISS index object is always true as a condition,
  so \<open>self.index and ...\<close> tests the count alone once the index is read.
\<close>

definition load_try :: "retriever \<Rightarrow> disk \<Rightarrow> (error + unit) \<times> retriever" where
  "load_try r fs =
     (case read_index (index_file fs) of
        Inl e \<Rightarrow> (Inl e, r)
      | Inr ix \<Rightarrow>
          let r1 = r\<lparr>index := Some ix\<rparr>
          in (case text_file fs of
                None \<Rightarrow> (Inl FileNotFoundError, r1)
              | Some content \<Rightarrow>
                  let r2 = r1\<lparr>chunks_with_content := stripped_chunks (str_split separator content)\<rparr>
                  in if chunks_with_content r2 = []
                        \<or> (index r2 \<noteq> None
                            \<and> length (chunks_with_content r2) \<noteq> ntotal (the (index r2)))
                     then (Inl ValueError, r2)
                     else (Inr (), r2)))"

definition load :: "retriever \<Rightarrow> disk \<Rightarrow> (error + load_report) \<times> retriever \<times> disk" where
  "load r fs =
     (case load_try r fs of
        (Inr u, r') \<Rightarrow> (Inr Loaded, r', fs)
      | (Inl e, r') \<Rightarrow>
          (case build r' fs of
             (Inl e', r'', fs') \<Rightarrow> (Inl e', r'', fs')
           | (Inr rep, r'', fs') \<Rightarrow> (Inr (Rebuilt rep), r'', fs')))"

definition initialize :: "retriever \<Rightarrow> disk \<Rightarrow> (error + unit) \<times> retriever \<times> disk" where
  "initialize r fs =
     (if initialized r then (Inr (), r, fs)
      else if index_file fs \<noteq> None \<and> text_file fs \<noteq> None
      then (case load r fs of
              (Inl e, r', fs') \<Rightarrow> (Inl e, r', fs')
            | (Inr rep, r', fs') \<Rightarrow> (Inr (), r'\<lparr>initialized := True\<rparr>, fs'))
      else (case build r fs of
              (Inl e, r', fs') \<Rightarrow> (Inl e, r', fs')
            | (Inr rep, r', fs') \<Rightarrow> (Inr (), r'\<lparr>initialized := True\<rparr>, fs')))"

text \<open>
  The loop of \<open>search\<close> over the labels the index returned: a label inside the chunk list
  contributes its chunk, any other is skipped (with a warning on the console).
\<close>

fun collect_results :: "string list \<Rightarrow> int list \<Rightarrow> string list" where
  "collect_results chunks [] = []"
| "collect_results chunks (i # indices) =
     (if 0 \<le> i \<and> i < int (length chunks) then chunks ! nat i # collect_results chunks indices
      else collect_results chunks indices)"

text \<open>The \<open>results\<close> list of \<open>search\<close>, up to the end of the loop inside the \<open>try\<close>.\<close>

definition search_results :: "embedder \<Rightarrow> faiss_index \<Rightarrow> string list \<Rightarrow> string \<Rightarrow> int \<Rightarrow> error + string list" where
  "search_results svc ix chunks query k =
     (case svc [query] of
        Inl e \<Rightarrow> Inl e
      | Inr embedding_list \<Rightarrow>
          (case embedding_list of
             [] \<Rightarrow> Inl IndexError
           | query_embedding # rest \<Rightarrow>
               (case index_search ix query_embedding k of
                  Inl e \<Rightarrow> Inl e
                | Inr found \<Rightarrow> Inr (collect_results chunks (map snd found)))))"

definition msg_not_initialized :: string where
  "msg_not_initialized = ''Error: FAISS index or embedding service is not initialized.''"

definition msg_no_information :: string where
  "msg_no_information = ''No relevant information found in the knowledge base.''"

definition msg_search_error :: string where
  "msg_search_error = ''Error occurred during knowledge base search.''"

definition msg_no_retriever :: string where
  "msg_no_retriever = ''Error: Knowledge base retriever is not initialized.''"

definition search :: "retriever \<Rightarrow> disk \<Rightarrow> string \<Rightarrow> int \<Rightarrow> (error + string) \<times> retriever \<times> disk" where
  "search r fs query k =
     (case (if \<not> initialized r then initialize r fs else (Inr (), r, fs)) of
        (Inl e, r', fs') \<Rightarrow> (Inl e, r', fs')
      | (Inr u, r', fs') \<Rightarrow>
          if index r' = None \<or> embedding_service r' = None
          then (Inr msg_not_initialized, r', fs')
          else
            (case search_results (the (embedding_service r')) (the (index r'))
                    (chunks_with_content r') query k of
               Inl e \<Rightarrow> (Inr msg_search_error, r', fs')
             | Inr results \<Rightarrow>
                 if results = [] then (Inr msg_no_information, r', fs')
                 else (Inr (str_join ''\<newline>\<newline>'' results), r', fs')))"

text \<open>The agent tool; \<open>faiss_retriever\<close> is the module's global, \<open>None\<close> until \<open>setup_agent\<close> sets it.\<close>

definition retrieve_knowledge :: "retriever option \<Rightarrow> disk \<Rightarrow> string \<Rightarrow> (error + string) \<times> retriever option \<times> disk" where
  "retrieve_knowledge faiss_retriever fs query =
     (case faiss_retriever of
        None \<Rightarrow> (Inr msg_no_retriever, None, fs)
      | Some r \<Rightarrow>
          (case search r fs query 2 of (res, r', fs') \<Rightarrow> (res, Some r', fs')))"

section \<open>The upload-and-chat variant (rag.py)\<close>

definition chunk_text :: "string \<Rightarrow> string list" where
  "chunk_text content =
     (let normalized_content = str_replace [CHR 0x0D, CHR 0x0A] ''\<newline>'' content;
          chunks = str_split ''\<newline>\<newline>'' normalized_content
      in stripped_chunks chunks)"

text \<open>The module's globals, and one entry of the list \<open>search_faiss\<close> returns.\<close>

record rag_state =
  faiss_index :: "faiss_index option"
  text_chunks :: "string list option"
  is_ready :: bool

record hit =
  hit_rank :: nat
  hit_text :: string
  hit_distance :: real

text \<open>
  The loop of \<open>search_faiss\<close> over \<open>zip(indices[0], distances[0])\<close>, ranks counted from 1:
  a label outside the chunk list is passed over, and its rank with it.
\<close>

fun retrieve_chunks :: "string list \<Rightarrow> nat \<Rightarrow> (real \<times> int) list \<Rightarrow> hit list" where
  "retrieve_chunks chunks rank [] = []"
| "retrieve_chunks chunks rank ((dst, idx) # found) =
     (if 0 \<le> idx \<and> idx < int (length chunks)
      then \<lparr>hit_rank = rank, hit_text = chunks ! nat idx, hit_distance = dst\<rparr>
             # retrieve_chunks chunks (Suc rank) found
      else retrieve_chunks chunks (Suc rank) found)"

text \<open>
  \<open>search_faiss\<close>; \<open>embed_content\<close> is the provider call for the query. Nothing is caught
  here. A global that is still \<open>None\<close> raises where it is used.
\<close>

definition search_faiss :: "rag_state \<Rightarrow> (string \<Rightarrow> error + real list) \<Rightarrow> string \<Rightarrow> int \<Rightarrow> error + hit list" where
  "search_faiss g embed_content query k =
     (if \<not> is_ready g then Inr []
      else
        (case embed_content query of
           Inl e \<Rightarrow> Inl e
         | Inr query_embedding \<Rightarrow>
             (case faiss_index g of
                None \<Rightarrow> Inl AttributeError
              | Some ix \<Rightarrow>
                  (case index_search ix query_embedding k of
                     Inl e \<Rightarrow> Inl e
                   | Inr found \<Rightarrow>
                       (case text_chunks g of
                          None \<Rightarrow> Inl TypeError
                        | Some chunks \<Rightarrow> Inr (retrieve_chunks chunks 1 found))))))"

section \<open>Notions used by the properties\<close>

text \<open>A paragraph is blank when it holds whitespace only.\<close>

definition blank :: "string \<Rightarrow> bool" where
  "blank p = (\<forall>c \<in> set p. isspace c)"

text \<open>A well-formed chunk: not empty, no whitespace at either end.\<close>

definition chunk_ok :: "string \<Rightarrow> bool" where
  "chunk_ok c = (c \<noteq> [] \<and> \<not> isspace (hd c) \<and> \<not> isspace (last c))"

text \<open>
  While \<open>str_split_from\<close> reads a piece, the separator starts at none of the positions
  already read.
\<close>

definition uncut :: "string \<Rightarrow> string \<Rightarrow> string \<Rightarrow> bool" where
  "uncut sep cur s = (\<forall>i < length cur. take (length sep) (drop i (rev cur @ s)) \<noteq> sep)"

text \<open>The index holds as many vectors as there are chunks in memory.\<close>

definition aligned :: "retriever \<Rightarrow> bool" where
  "aligned r = (case index r of None \<Rightarrow> False
                | Some ix \<Rightarrow> ntotal ix = length (chunks_with_content r))"

text \<open>
  The contract of the embedding gateway: as many vectors come back as texts went in.
\<close>

definition keeps_length :: "embedder \<Rightarrow> bool" where
  "keeps_length svc = (\<forall>texts vs. svc texts = Inr vs \<longrightarrow> length vs = length texts)"

text \<open>The labels of a successful index query: the nearest ordinals, then the padding.\<close>

definition nearest :: "faiss_index \<Rightarrow> real list \<Rightarrow> int \<Rightarrow> nat list" where
  "nearest ix x k = take (nat k) (sort_key (\<lambda>i. l2sqr x (vectors ix ! i)) [0..<ntotal ix])"

text \<open>
  The two files of an artifact disagree: the index file does not deserialise, the text
  file cannot be read, or the text file holds a number of chunks other than the number
  of vectors in the index.
\<close>

definition artifact_inconsistent :: "disk \<Rightarrow> bool" where
  "artifact_inconsistent fs =
     (case read_index (index_file fs) of
        Inl e \<Rightarrow> True
      | Inr ix \<Rightarrow>
          (case text_file fs of
             None \<Rightarrow> True
           | Some content \<Rightarrow>
               length (stripped_chunks (str_split separator content)) \<noteq> ntotal ix))"

text \<open>The separator without its final line break: a line break, then the marker line.\<close>

definition separator_head :: string where
  "separator_head = ''\<newline><---CHUNK_SEPARATOR--->''"

section \<open>Fixtures for the worked examples\<close>

text \<open>A deterministic embedding stub: a text goes to the vector (its length, 1).\<close>

definition length_embedder :: embedder where
  "length_embedder texts = Inr (map (\<lambda>t. [real (length t), 1]) texts)"

text \<open>A provider that is down.\<close>

definition failing_embedder :: embedder where
  "failing_embedder texts = Inl ProviderError"

definition example_corpus :: string where
  "example_corpus = ''a\<newline>\<newline> \<newline>\<newline>bb''"

definition example_index :: faiss_index where
  "example_index = \<lparr>faiss_d = 2, vectors = [[1, 1], [2, 1]]\<rparr>"

text \<open>The corpus together with the artifact a build from it leaves.\<close>

definition example_disk :: disk where
  "example_disk =
     \<lparr>knowledge_file = Some example_corpus,
      index_file = Some (Serialized example_index),
      text_file = Some ''a\<newline><---CHUNK_SEPARATOR--->\<newline>bb''\<rparr>"

text \<open>A corpus with Windows line ends, a blank paragraph and an inner line break.\<close>

definition crlf_corpus :: string where
  "crlf_corpus = ''a'' @ [CHR 0x0D, CHR 0x0A, CHR 0x0D, CHR 0x0A] @ '' \<newline>\<newline>\<newline> bb \<newline>c''"

text \<open>An artifact whose index file does not deserialise, beside a readable corpus.\<close>

definition rebuild_disk :: disk where
  "rebuild_disk =
     \<lparr>knowledge_file = Some example_corpus, index_file = Some Garbage, text_file = Some ''a''\<rparr>"

text \<open>A corpus of blank paragraphs only, and no artifact.\<close>

definition blank_corpus_disk :: disk where
  "blank_corpus_disk =
     \<lparr>knowledge_file = Some '' \<newline>\<newline>\<newline>\<newline>  '', index_file = None, text_file = None\<rparr>"

text \<open>Nothing on disk: no corpus, no artifact.\<close>

definition empty_disk :: disk where
  "empty_disk = \<lparr>knowledge_file = None, index_file = None, text_file = None\<rparr>"

text \<open>The corpus alone, before any build.\<close>

definition corpus_only_disk :: disk where
  "corpus_only_disk = \<lparr>knowledge_file = Some example_corpus, index_file = None, text_file = None\<rparr>"

text \<open>A retriever that is ready: the state the example build leaves, marked initialised.\<close>

definition ready_retriever :: "embedder \<Rightarrow> retriever" where
  "ready_retriever svc =
     \<lparr>embedding_service = Some svc, index = Some example_index,
      chunks_with_content = [''a'', ''bb''], initialized = True\<rparr>"

text \<open>The globals of rag.py once the example corpus is uploaded.\<close>

definition ready_rag :: rag_state where
  "ready_rag = \<lparr>faiss_index = Some example_index, text_chunks = Some [''a'', ''bb''], is_ready = True\<rparr>"

text \<open>The query stub of rag.py's provider call, as \<open>length_embedder\<close> on one text.\<close>

definition length_embed_content :: "string \<Rightarrow> error + real list" where
  "length_embed_content text = Inr [real (length text), 1]"

text \<open>A corpus of one paragraph that holds the chunk separator between two of its lines.\<close>

definition separator_corpus :: string where
  "separator_corpus = ''x\<newline><---CHUNK_SEPARATOR--->\<newline>y''"

definition separator_corpus_disk :: disk where
  "separator_corpus_disk =
     \<lparr>knowledge_file = Some separator_corpus, index_file = None, text_file = None\<rparr>"

text \<open>
  An artifact whose text file has lost a chunk (the index holds two vectors), and no
  corpus to rebuild from.
\<close>

definition stale_disk :: disk where
  "stale_disk =
     \<lparr>knowledge_file = None, index_file = Some (Serialized example_index),
      text_file = Some ''a''\<rparr>"

text \<open>
  A corpus of two paragraphs, the first ending in the marker line: its two chunks, and
  the state a build from it leaves.
\<close>

definition shifted_corpus :: string where
  "shifted_corpus = ''a\<newline><---CHUNK_SEPARATOR--->\<newline>\<newline>b''"

definition shifted_disk :: disk where
  "shifted_disk = \<lparr>knowledge_file = Some shifted_corpus, index_file = None, text_file = None\<rparr>"

definition shifted_retriever :: retriever where
  "shifted_retriever =
     \<lparr>embedding_service = Some length_embedder,
      index = Some \<lparr>faiss_d = 2, vectors = [[25, 1], [1, 1]]\<rparr>,
      chunks_with_content = [''a\<newline><---CHUNK_SEPARATOR--->'', ''b''],
      initialized = False\<rparr>"

text \<open>A provider that answers with one vector however many texts it is given.\<close>

definition single_vector_embedder :: embedder where
  "single_vector_embedder texts = Inr [[1, 1]]"

section \<open>Facts about the string functions\<close>

lemmas string_defs = str_split_def stripped_chunks_def strip_def isspace_def whitespace_def
  separator_def

lemmas faiss_defs = shape1_def index_add_def IndexFlatL2_def ntotal_def read_index_def
  write_index_def index_search_def l2sqr_def

lemmas retriever_defs = build_def build_try_def load_def load_try_def save_def initialize_def
  FaissRetriever_def search_def search_results_def

lemmas example_defs = length_embedder_def failing_embedder_def example_corpus_def
  example_index_def example_disk_def

lemma last_dropWhile_keep: "dropWhile P xs \<noteq> [] \<Longrightarrow> last (dropWhile P xs) = last xs"
proof -
  assume ne: "dropWhile P xs \<noteq> []"
  have "last xs = last (takeWhile P xs @ dropWhile P xs)" by simp
  also have "\<dots> = last (dropWhile P xs)" using ne by (rule last_appendR)
  finally show ?thesis by simp
qed

lemma strip_Nil_iff: "strip s = [] \<longleftrightarrow> (\<forall>c \<in> set s. isspace c)"
proof
  assume "strip s = []"
  then have "\<forall>x \<in> set (dropWhile isspace s). isspace x"
    by (simp add: strip_def dropWhile_eq_Nil_conv)
  then have "dropWhile isspace s = []"
    using hd_dropWhile [of isspace s] hd_in_set [of "dropWhile isspace s"] by blast
  then show "\<forall>c \<in> set s. isspace c" by (simp add: dropWhile_eq_Nil_conv)
next
  assume "\<forall>c \<in> set s. isspace c"
  then show "strip s = []" by (auto simp: strip_def dest: set_dropWhileD)
qed

lemma strip_last: 
  assumes "strip s \<noteq> []" shows "\<not> isspace (last (strip s))"
proof -
  let ?ys = "dropWhile isspace (rev (dropWhile isspace s))"
  from assms have ne: "?ys \<noteq> []" by (simp add: strip_def)
  have "last (strip s) = hd ?ys" using ne by (simp add: strip_def last_rev)
  then show ?thesis using hd_dropWhile [OF ne] by simp
qed

lemma strip_hd: 
  assumes "strip s \<noteq> []" shows "\<not> isspace (hd (strip s))"
proof -
  let ?zs = "dropWhile isspace s"
  let ?ys = "dropWhile isspace (rev ?zs)"
  from assms have ne: "?ys \<noteq> []" by (simp add: strip_def)
  then have zne: "?zs \<noteq> []" by (cases "?zs") auto
  have "hd (strip s) = last ?ys" using ne by (simp add: strip_def hd_rev)
  also have "\<dots> = last (rev ?zs)" using ne by (rule last_dropWhile_keep)
  also have "\<dots> = hd ?zs" using zne by (simp add: last_rev)
  finally show ?thesis using hd_dropWhile [OF zne] by simp
qed

lemma strip_fixed:
  assumes "s \<noteq> []" "\<not> isspace (hd s)" "\<not> isspace (last s)" shows "strip s = s"
proof -
  from assms have a: "dropWhile isspace s = s" by (cases s) auto
  from assms have "rev s \<noteq> []" "\<not> isspace (hd (rev s))" by (simp_all add: hd_rev)
  then have "dropWhile isspace (rev s) = rev s" by (cases "rev s") auto
  with a show ?thesis by (simp add: strip_def)
qed

lemma str_split_from_nonempty: "str_split_from sep cur s \<noteq> []"
  by (induction sep cur s rule: str_split_from.induct) auto

lemma str_join_Cons: "xs \<noteq> [] \<Longrightarrow> str_join sep (x # xs) = x @ sep @ str_join sep xs"
  by (cases xs) auto

lemma take_drop_self: "take n xs = sep \<Longrightarrow> sep @ drop n xs = xs"
  by (metis append_take_drop_id)

lemma str_join_split_from: "str_join sep (str_split_from sep cur s) = rev cur @ s"
proof (induction sep cur s rule: str_split_from.induct)
  case (1 sep cur)
  show ?case by simp
next
  case (2 sep cur c cs)
  show ?case
  proof (cases "sep \<noteq> [] \<and> take (length sep) (c # cs) = sep")
    case True
    then have "str_join sep (str_split_from sep cur (c # cs))
        = rev cur @ sep @ str_join sep (str_split_from sep [] (drop (length sep) (c # cs)))"
      by (simp add: str_join_Cons str_split_from_nonempty del: take_Suc_Cons drop_Suc_Cons)
    also have "\<dots> = rev cur @ sep @ drop (length sep) (c # cs)"
      using 2(1) True by simp
    also have "\<dots> = rev cur @ c # cs"
      using True take_drop_self [of "length sep" "c # cs" sep] by simp
    finally show ?thesis .
  next
    case False
    then show ?thesis using 2(2) by auto
  qed
qed

lemma take_eq_length: "take (length sep) xs = sep \<Longrightarrow> length sep \<le> length xs"
proof -
  assume "take (length sep) xs = sep"
  then have "length (take (length sep) xs) = length sep" by simp
  then show ?thesis by simp
qed

lemma occurs_in_iff: "occurs_in sep s \<longleftrightarrow> (\<exists>i \<le> length s. take (length sep) (drop i s) = sep)"
proof (induction s)
  case Nil
  show ?case by auto
next
  case (Cons c cs)
  show ?case
  proof
    assume "occurs_in sep (c # cs)"
    then consider "take (length sep) (c # cs) = sep" | "occurs_in sep cs" by auto
    then show "\<exists>i \<le> length (c # cs). take (length sep) (drop i (c # cs)) = sep"
    proof cases
      case 1
      then have "take (length sep) (drop 0 (c # cs)) = sep" by simp
      then show ?thesis by blast
    next
      case 2
      with Cons obtain i where "i \<le> length cs" "take (length sep) (drop i cs) = sep" by blast
      then have "Suc i \<le> length (c # cs) \<and> take (length sep) (drop (Suc i) (c # cs)) = sep" by simp
      then show ?thesis by blast
    qed
  next
    assume "\<exists>i \<le> length (c # cs). take (length sep) (drop i (c # cs)) = sep"
    then obtain i where i: "i \<le> length (c # cs)" "take (length sep) (drop i (c # cs)) = sep" by blast
    show "occurs_in sep (c # cs)"
    proof (cases i)
      case 0
      with i show ?thesis by simp
    next
      case (Suc j)
      with i have "j \<le> length cs \<and> take (length sep) (drop j cs) = sep" by simp
      with Cons have "occurs_in sep cs" by blast
      then show ?thesis by simp
    qed
  qed
qed

lemma uncut_piece:
  assumes "sep \<noteq> []" "uncut sep cur s" shows "\<not> occurs_in sep (rev cur)"
proof
  assume "occurs_in sep (rev cur)"
  then obtain i where i: "i \<le> length cur" "take (length sep) (drop i (rev cur)) = sep"
    by (auto simp: occurs_in_iff)
  from i(2) have le: "length sep \<le> length cur - i"
    using take_eq_length [of sep "drop i (rev cur)"] by simp
  with assms(1) have lt: "i < length cur" by (cases sep) auto
  from le have "take (length sep) (drop i (rev cur @ s)) = take (length sep) (drop i (rev cur))"
    by simp
  with i(2) have "take (length sep) (drop i (rev cur @ s)) = sep" by simp
  moreover from assms(2) lt have "take (length sep) (drop i (rev cur @ s)) \<noteq> sep"
    unfolding uncut_def by blast
  ultimately show False by blast
qed

lemma str_split_from_pieces:
  "sep \<noteq> [] \<Longrightarrow> uncut sep cur s \<Longrightarrow> \<forall>p \<in> set (str_split_from sep cur s). \<not> occurs_in sep p"
proof (induction sep cur s rule: str_split_from.induct)
  case (1 sep cur)
  then show ?case using uncut_piece [of sep cur "[]"] by simp
next
  case (2 sep cur c cs)
  show ?case
  proof (cases "take (length sep) (c # cs) = sep")
    case True
    have cut: "\<not> occurs_in sep (rev cur)" using 2(3) 2(4) by (rule uncut_piece)
    have "uncut sep [] (drop (length sep) (c # cs))" by (simp add: uncut_def)
    with 2(1) 2(3) True have "\<forall>p \<in> set (str_split_from sep [] (drop (length sep) (c # cs))). \<not> occurs_in sep p"
      by blast
    with cut True 2(3) show ?thesis by (simp del: take_Suc_Cons drop_Suc_Cons occurs_in.simps)
  next
    case False
    have "uncut sep (c # cur) cs"
      unfolding uncut_def
    proof (intro allI impI)
      fix i assume "i < length (c # cur)"
      then consider "i < length cur" | "i = length cur" by fastforce
      then show "take (length sep) (drop i (rev (c # cur) @ cs)) \<noteq> sep"
      proof cases
        case 1
        with 2(4) show ?thesis by (simp add: uncut_def)
      next
        case 2
        with False show ?thesis by simp
      qed
    qed
    with 2(2) 2(3) False have "\<forall>p \<in> set (str_split_from sep (c # cur) cs). \<not> occurs_in sep p"
      by blast
    with False show ?thesis by simp
  qed
qed

lemma str_join_split: "str_join sep (str_split sep s) = s"
  by (simp add: str_split_def str_join_split_from)

lemma str_split_pieces: "sep \<noteq> [] \<Longrightarrow> p \<in> set (str_split sep s) \<Longrightarrow> \<not> occurs_in sep p"
  using str_split_from_pieces [of sep "[]" s] by (simp add: str_split_def uncut_def)

section \<open>Facts about build and load\<close>

lemma stripped_chunks_blank: "stripped_chunks ps = map strip (filter (\<lambda>p. \<not> blank p) ps)"
  by (simp add: stripped_chunks_def blank_def strip_Nil_iff)

lemma stripped_chunks_ok: "c \<in> set (stripped_chunks ps) \<Longrightarrow> chunk_ok c"
  by (auto simp: stripped_chunks_def chunk_ok_def strip_hd strip_last)

lemma build_try_chunks:
  "chunks_with_content (fst (snd (build_try svc r fs))) =
     (case knowledge_file fs of None \<Rightarrow> chunks_with_content r
      | Some content \<Rightarrow> stripped_chunks (str_split ''\<newline>\<newline>'' content))"
  by (simp add: build_try_def Let_def split: option.splits sum.splits)

lemma build_chunks:
  "chunks_with_content (fst (snd (build r fs))) =
     (if embedding_service r = None \<or> knowledge_file fs = None then chunks_with_content r
      else stripped_chunks (str_split ''\<newline>\<newline>'' (the (knowledge_file fs))))"
proof (cases "embedding_service r")
  case None
  then show ?thesis by (simp add: build_def)
next
  case (Some svc)
  obtain res r' fs' where b: "build_try svc r fs = (res, r', fs')" by (cases "build_try svc r fs")
  with build_try_chunks [of svc r fs]
  have "chunks_with_content r' = (case knowledge_file fs of None \<Rightarrow> chunks_with_content r
      | Some content \<Rightarrow> stripped_chunks (str_split ''\<newline>\<newline>'' content))" by simp
  with Some b show ?thesis by (cases res) (auto simp: build_def split: option.splits)
qed

lemma build_returns: "\<exists>rep. fst (build r fs) = Inr rep"
proof (cases "embedding_service r")
  case None
  then show ?thesis by (simp add: build_def)
next
  case (Some svc)
  obtain res r' fs' where b: "build_try svc r fs = (res, r', fs')" by (cases "build_try svc r fs")
  with Some show ?thesis by (cases res) (auto simp: build_def)
qed

lemma build_preserves_ok:
  assumes "list_all chunk_ok (chunks_with_content r)"
  shows "list_all chunk_ok (chunks_with_content (fst (snd (build r fs))))"
  using assms by (auto simp: build_chunks list_all_iff stripped_chunks_ok)

lemma load_try_chunks:
  "chunks_with_content (snd (load_try r fs)) =
     (case read_index (index_file fs) of
        Inl e \<Rightarrow> chunks_with_content r
      | Inr ix \<Rightarrow>
          (case text_file fs of None \<Rightarrow> chunks_with_content r
           | Some content \<Rightarrow> stripped_chunks (str_split separator content)))"
  by (simp add: load_try_def Let_def split: option.splits sum.splits)

lemma load_try_preserves_ok:
  assumes "list_all chunk_ok (chunks_with_content r)"
  shows "list_all chunk_ok (chunks_with_content (snd (load_try r fs)))"
  using assms
  by (auto simp: load_try_chunks list_all_iff stripped_chunks_ok split: option.splits sum.splits)

lemma load_state:
  "fst (snd (load r fs)) =
     (case fst (load_try r fs) of Inr u \<Rightarrow> snd (load_try r fs)
      | Inl e \<Rightarrow> fst (snd (build (snd (load_try r fs)) fs)))"
proof -
  obtain res r' where l: "load_try r fs = (res, r')" by (cases "load_try r fs")
  obtain bres r'' fs' where b: "build r' fs = (bres, r'', fs')" by (cases "build r' fs")
  from l b show ?thesis by (cases res; cases bres) (auto simp: load_def)
qed

lemma load_preserves_ok:
  assumes "list_all chunk_ok (chunks_with_content r)"
  shows "list_all chunk_ok (chunks_with_content (fst (snd (load r fs))))"
  using load_try_preserves_ok [OF assms, of fs] build_preserves_ok
  by (simp add: load_state split: sum.splits)

lemma load_result:
  "fst (load r fs) =
     (case fst (load_try r fs) of Inr u \<Rightarrow> Inr Loaded
      | Inl e \<Rightarrow> (case fst (build (snd (load_try r fs)) fs) of Inl e' \<Rightarrow> Inl e' | Inr rep \<Rightarrow> Inr (Rebuilt rep)))"
proof -
  obtain res r' where l: "load_try r fs = (res, r')" by (cases "load_try r fs")
  obtain bres r'' fs' where b: "build r' fs = (bres, r'', fs')" by (cases "build r' fs")
  from l b show ?thesis by (cases res; cases bres) (auto simp: load_def)
qed

lemma load_try_success:
  assumes "fst (load_try r fs) = Inr u"
  shows "\<exists>ix content. index_file fs = Some (Serialized ix) \<and> text_file fs = Some content
           \<and> snd (load_try r fs) = r\<lparr>index := Some ix,
                 chunks_with_content := stripped_chunks (str_split separator content)\<rparr>
           \<and> stripped_chunks (str_split separator content) \<noteq> []
           \<and> length (stripped_chunks (str_split separator content)) = ntotal ix"
  using assms
  by (auto simp: load_try_def read_index_def Let_def split: option.splits sum.splits index_blob.splits if_splits)

lemma load_Loaded_iff: "fst (load r fs) = Inr Loaded \<longleftrightarrow> fst (load_try r fs) = Inr ()"
  using build_returns [of "snd (load_try r fs)" fs]
  by (auto simp: load_result split: sum.splits)

subsection \<open>Successful builds\<close>

lemma shape1_index_add:
  "shape1 vs = Inr dd \<Longrightarrow> index_add (IndexFlatL2 dd) vs = Inr \<lparr>faiss_d = dd, vectors = vs\<rparr>"
  by (cases vs) (auto simp: shape1_def index_add_def IndexFlatL2_def split: if_splits)

lemma build_try_Built:
  assumes "fst (build_try svc r fs) = Inr Built"
  shows "\<exists>content vs dd. knowledge_file fs = Some content
           \<and> stripped_chunks (str_split ''\<newline>\<newline>'' content) \<noteq> []
           \<and> svc (stripped_chunks (str_split ''\<newline>\<newline>'' content)) = Inr vs
           \<and> shape1 vs = Inr dd"
  using assms
  by (auto simp: build_try_def Let_def split: option.splits sum.splits if_splits)

lemma build_try_succeeds:
  assumes "knowledge_file fs = Some content"
    and "stripped_chunks (str_split ''\<newline>\<newline>'' content) \<noteq> []"
    and "svc (stripped_chunks (str_split ''\<newline>\<newline>'' content)) = Inr vs"
    and "shape1 vs = Inr dd"
  shows "build_try svc r fs =
           (Inr Built,
            r\<lparr>chunks_with_content := stripped_chunks (str_split ''\<newline>\<newline>'' content),
              index := Some \<lparr>faiss_d = dd, vectors = vs\<rparr>\<rparr>,
            fs\<lparr>index_file := Some (Serialized \<lparr>faiss_d = dd, vectors = vs\<rparr>),
               text_file := Some (str_join separator
                                    (stripped_chunks (str_split ''\<newline>\<newline>'' content)))\<rparr>)"
  using assms shape1_index_add [OF assms(4)]
  by (simp add: build_try_def Let_def save_def write_index_def)

lemma build_with_service:
  assumes "embedding_service r = Some svc"
  shows "build r fs =
           (case fst (build_try svc r fs) of
              Inl e \<Rightarrow> (Inr (Build_error e), snd (build_try svc r fs))
            | Inr rep \<Rightarrow> (Inr rep, snd (build_try svc r fs)))"
proof -
  obtain res r' fs' where b: "build_try svc r fs = (res, r', fs')" by (cases "build_try svc r fs")
  with assms show ?thesis by (cases res) (auto simp: build_def)
qed

lemma build_Built:
  assumes "fst (build r fs) = Inr Built"
  shows "\<exists>svc content vs dd. embedding_service r = Some svc
           \<and> knowledge_file fs = Some content
           \<and> stripped_chunks (str_split ''\<newline>\<newline>'' content) \<noteq> []
           \<and> svc (stripped_chunks (str_split ''\<newline>\<newline>'' content)) = Inr vs
           \<and> shape1 vs = Inr dd"
proof (cases "embedding_service r")
  case None
  with assms show ?thesis by (simp add: build_def)
next
  case (Some svc)
  with assms have "fst (build_try svc r fs) = Inr Built"
    by (auto simp: build_with_service split: sum.splits)
  from build_try_Built [OF this] Some show ?thesis by blast
qed

lemma build_succeeds:
  assumes "embedding_service r = Some svc"
    and "knowledge_file fs = Some content"
    and "stripped_chunks (str_split ''\<newline>\<newline>'' content) \<noteq> []"
    and "svc (stripped_chunks (str_split ''\<newline>\<newline>'' content)) = Inr vs"
    and "shape1 vs = Inr dd"
  shows "build r fs =
           (Inr Built,
            r\<lparr>chunks_with_content := stripped_chunks (str_split ''\<newline>\<newline>'' content),
              index := Some \<lparr>faiss_d = dd, vectors = vs\<rparr>\<rparr>,
            fs\<lparr>index_file := Some (Serialized \<lparr>faiss_d = dd, vectors = vs\<rparr>),
               text_file := Some (str_join separator
                                    (stripped_chunks (str_split ''\<newline>\<newline>'' content)))\<rparr>)"
  using assms build_try_succeeds [of fs content svc vs dd r]
  by (simp add: build_with_service [of r svc fs])

lemma build_Built_aligned:
  assumes "fst (build r fs) = Inr Built"
    and "\<forall>svc. embedding_service r = Some svc \<longrightarrow> keeps_length svc"
  shows "aligned (fst (snd (build r fs)))"
proof -
  from build_Built [OF assms(1)] obtain svc content vs dd where
    h: "embedding_service r = Some svc" "knowledge_file fs = Some content"
       "stripped_chunks (str_split ''\<newline>\<newline>'' content) \<noteq> []"
       "svc (stripped_chunks (str_split ''\<newline>\<newline>'' content)) = Inr vs"
       "shape1 vs = Inr dd"
    by blast
  from assms(2) h(1) h(4) have "length vs = length (stripped_chunks (str_split ''\<newline>\<newline>'' content))"
    unfolding keeps_length_def by blast
  then show ?thesis
    using h build_succeeds [of r svc fs content vs dd]
    by (simp add: aligned_def ntotal_def)
qed

lemma load_Loaded_aligned:
  assumes "fst (load r fs) = Inr Loaded"
  shows "aligned (fst (snd (load r fs)))"
proof -
  from assms have l: "fst (load_try r fs) = Inr ()" by (simp add: load_Loaded_iff)
  from load_try_success [OF l] l show ?thesis
    by (auto simp: load_state aligned_def)
qed

lemma load_try_embedding_service: "embedding_service (snd (load_try r fs)) = embedding_service r"
  by (simp add: load_try_def Let_def split: option.splits sum.splits)

subsection \<open>Nothing is raised\<close>

lemma build_no_chunks:
  assumes "embedding_service r = Some svc" "knowledge_file fs = Some content"
    and "stripped_chunks (str_split ''\<newline>\<newline>'' content) = []"
  shows "build r fs = (Inr No_chunks, r\<lparr>chunks_with_content := []\<rparr>, fs)"
  using assms by (simp add: build_def build_try_def Let_def)

lemma build_fails_keeps:
  assumes "embedding_service r = Some svc"
    and "knowledge_file fs = None
         \<or> (\<exists>content e. knowledge_file fs = Some content
               \<and> svc (stripped_chunks (str_split ''\<newline>\<newline>'' content)) = Inl e)"
  shows "index (fst (snd (build r fs))) = index r \<and> snd (snd (build r fs)) = fs"
  using assms by (auto simp: build_def build_try_def Let_def)

lemma load_returns: "\<exists>rep. fst (load r fs) = Inr rep"
  using build_returns [of "snd (load_try r fs)" fs]
  by (auto simp: load_result split: sum.splits)

lemma initialize_unfold:
  "initialize r fs =
     (if initialized r then (Inr (), r, fs)
      else if index_file fs \<noteq> None \<and> text_file fs \<noteq> None
      then (Inr (), (fst (snd (load r fs)))\<lparr>initialized := True\<rparr>, snd (snd (load r fs)))
      else (Inr (), (fst (snd (build r fs)))\<lparr>initialized := True\<rparr>, snd (snd (build r fs))))"
proof -
  obtain lres lr lfs where l: "load r fs = (lres, lr, lfs)" by (cases "load r fs")
  obtain bres br bfs where b: "build r fs = (bres, br, bfs)" by (cases "build r fs")
  from load_returns [of r fs] l obtain lrep where "lres = Inr lrep" by auto
  moreover from build_returns [of r fs] b obtain brep where "bres = Inr brep" by auto
  ultimately show ?thesis using l b by (simp add: initialize_def)
qed

lemma initialize_returns: "fst (initialize r fs) = Inr ()"
  by (simp add: initialize_unfold)

lemma initialize_initialized: "initialized (fst (snd (initialize r fs)))"
  by (simp add: initialize_unfold)

text \<open>The state in which \<open>search\<close> goes on after its lazy initialisation.\<close>

lemma search_unfold:
  "search r fs query k =
     (let w = (if initialized r then (r, fs) else snd (initialize r fs)); r' = fst w; fs' = snd w
      in if index r' = None \<or> embedding_service r' = None
         then (Inr msg_not_initialized, r', fs')
         else
           (case search_results (the (embedding_service r')) (the (index r'))
                   (chunks_with_content r') query k of
              Inl e \<Rightarrow> (Inr msg_search_error, r', fs')
            | Inr results \<Rightarrow>
                if results = [] then (Inr msg_no_information, r', fs')
                else (Inr (str_join ''\<newline>\<newline>'' results), r', fs')))"
proof (cases "initialized r")
  case True
  then show ?thesis by (simp add: search_def Let_def split: sum.splits)
next
  case False
  obtain r' fs' where i: "initialize r fs = (Inr (), r', fs')"
    using initialize_returns [of r fs] by (cases "initialize r fs") auto
  with False show ?thesis by (simp add: search_def Let_def split: sum.splits)
qed

lemma search_returns: "\<exists>s. fst (search r fs query k) = Inr s"
  by (simp add: search_unfold Let_def split: sum.splits)

lemma retrieve_knowledge_returns: "\<exists>s. fst (retrieve_knowledge g fs query) = Inr s"
proof (cases g)
  case None
  then show ?thesis by (simp add: retrieve_knowledge_def)
next
  case (Some r)
  obtain res r' fs' where s: "search r fs query 2 = (res, r', fs')" by (cases "search r fs query 2")
  with search_returns [of r fs query 2] Some show ?thesis by (simp add: retrieve_knowledge_def)
qed

subsection \<open>Facts about search\<close>

lemma collect_results_filter:
  "collect_results chunks indices =
     map (\<lambda>i. chunks ! nat i) (filter (\<lambda>i. 0 \<le> i \<and> i < int (length chunks)) indices)"
  by (induction indices) auto

lemma retrieve_chunks_texts:
  "map hit_text (retrieve_chunks chunks rank found) = collect_results chunks (map snd found)"
  by (induction chunks rank found rule: retrieve_chunks.induct) auto

lemma index_search_labels:
  assumes "length x = faiss_d ix" "0 < k"
  shows "\<exists>found. index_search ix x k = Inr found
           \<and> map snd found = map int (nearest ix x k)
                 @ replicate (nat k - length (nearest ix x k)) (- 1)"
  using assms by (simp add: index_search_def nearest_def Let_def comp_def)

lemma nearest_length: "length (nearest ix x k) = min (nat k) (ntotal ix)"
  by (simp add: nearest_def)

lemma nearest_range: "i \<in> set (nearest ix x k) \<Longrightarrow> i < ntotal ix"
proof -
  assume "i \<in> set (nearest ix x k)"
  then have "i \<in> set (sort_key (\<lambda>i. l2sqr x (vectors ix ! i)) [0..<ntotal ix])"
    unfolding nearest_def by (rule in_set_takeD)
  then show ?thesis by simp
qed

lemma collect_results_labels:
  assumes "\<forall>i \<in> set found. i < length chunks"
  shows "collect_results chunks (map int found @ replicate n (- 1)) = map (\<lambda>i. chunks ! i) found"
proof -
  have "filter (\<lambda>i. 0 \<le> i \<and> i < int (length chunks)) (map int found) = map int found"
    using assms by (induction found) auto
  moreover have "filter (\<lambda>i. 0 \<le> i \<and> i < int (length chunks)) (replicate n (- 1)) = []"
    by simp
  ultimately show ?thesis by (simp add: collect_results_filter comp_def)
qed

lemma index_search_length:
  "index_search ix x k = Inr found \<Longrightarrow> length found = nat k"
  by (auto simp: index_search_def Let_def split: if_splits)

lemma collect_results_length: "length (collect_results chunks indices) \<le> length indices"
  by (simp add: collect_results_filter)

lemma search_results_at_most_k:
  assumes "search_results svc ix chunks query k = Inr results"
  shows "length results \<le> nat k"
proof -
  from assms obtain v rest found where
    f: "index_search ix v k = Inr found" "results = collect_results chunks (map snd found)"
    by (auto simp: search_results_def split: sum.splits list.splits)
  from index_search_length [OF f(1)] collect_results_length [of chunks "map snd found"] f(2)
  show ?thesis by simp
qed

lemma search_results_aligned:
  assumes "ntotal ix = length chunks" "svc [query] = Inr (v # rest)" "length v = faiss_d ix" "0 < k"
  shows "search_results svc ix chunks query k = Inr (map (\<lambda>i. chunks ! i) (nearest ix v k))"
proof -
  from index_search_labels [OF assms(3) assms(4)] obtain found where
    f: "index_search ix v k = Inr found"
       "map snd found = map int (nearest ix v k) @ replicate (nat k - length (nearest ix v k)) (- 1)"
    by blast
  have "\<forall>i \<in> set (nearest ix v k). i < length chunks"
    using nearest_range [of _ ix v k] assms(1) by auto
  from collect_results_labels [OF this] f assms(2) show ?thesis
    by (simp add: search_results_def)
qed

lemma search_faiss_aligned:
  assumes "is_ready g" "faiss_index g = Some ix" "text_chunks g = Some chunks"
    and "ntotal ix = length chunks" "embed_content query = Inr v" "length v = faiss_d ix" "0 < k"
  shows "\<exists>hits. search_faiss g embed_content query k = Inr hits
           \<and> map hit_text hits = map (\<lambda>i. chunks ! i) (nearest ix v k)"
proof -
  from index_search_labels [OF assms(6) assms(7)] obtain found where
    f: "index_search ix v k = Inr found"
       "map snd found = map int (nearest ix v k) @ replicate (nat k - length (nearest ix v k)) (- 1)"
    by blast
  have "\<forall>i \<in> set (nearest ix v k). i < length chunks"
    using nearest_range [of _ ix v k] assms(4) by auto
  from collect_results_labels [OF this] f assms show ?thesis
    by (simp add: search_faiss_def retrieve_chunks_texts)
qed

subsection \<open>Facts about the saved text\<close>

lemma save_with_index:
  "index r = Some ix \<Longrightarrow>
   save r fs = fs\<lparr>index_file := Some (Serialized ix),
                  text_file := Some (str_join separator (chunks_with_content r))\<rparr>"
  by (simp add: save_def write_index_def)

lemma inconsistent_load_try_fails:
  assumes "artifact_inconsistent fs"
  shows "\<exists>e. fst (load_try r fs) = Inl e"
  using assms
  by (auto simp: artifact_inconsistent_def load_try_def Let_def split: sum.splits option.splits)

lemma separator_snoc: "separator = separator_head @ ''\<newline>''"
  by (simp add: separator_def separator_head_def)

lemma inner_nth: "0 < j \<Longrightarrow> j \<le> length xs \<Longrightarrow> (x # xs @ ys) ! j = xs ! (j - 1)"
  by (cases j) (simp_all add: nth_append)

lemma separator_inner:
  assumes "0 < j" "j < 24"
  shows "separator ! j \<noteq> CHR ''\<newline>''"
proof -
  from assms have "(CHR ''\<newline>'' # ''<---CHUNK_SEPARATOR--->'' @ ''\<newline>'') ! j
      = ''<---CHUNK_SEPARATOR--->'' ! (j - 1)"
    by (intro inner_nth) simp_all
  then have "separator ! j = ''<---CHUNK_SEPARATOR--->'' ! (j - 1)"
    by (simp add: separator_def)
  moreover from assms have "''<---CHUNK_SEPARATOR--->'' ! (j - 1) \<in> set ''<---CHUNK_SEPARATOR--->''"
    by (intro nth_mem) simp
  ultimately show ?thesis by auto
qed

lemma take_drop_nth:
  assumes "take (length sep) (drop i xs) = sep" "j < length sep"
  shows "xs ! (i + j) = sep ! j"
proof -
  from assms(2) have "sep ! j = take (length sep) (drop i xs) ! j" by (simp add: assms(1))
  also from assms(2) have "\<dots> = drop i xs ! j" by simp
  also have "\<dots> = xs ! (i + j)"
  proof -
    from assms(1) have "length sep \<le> length (drop i xs)" by (rule take_eq_length)
    with assms(2) have "i \<le> length xs" by simp
    then show ?thesis by (rule nth_drop)
  qed
  finally show ?thesis by simp
qed

lemma take_drop_append_left:
  assumes "i + n \<le> length c"
  shows "take n (drop i (c @ rest)) = take n (drop i c)"
  using assms by simp

text \<open>
  A piece that does not hold the separator's head, followed by nothing or by a
  separator, is read to its end without a cut.
\<close>

lemma no_early_cut:
  assumes nohead: "\<not> occurs_in separator_head c"
    and rest: "rest = [] \<or> (\<exists>t. rest = separator @ t)"
    and i: "i < length c"
  shows "take (length separator) (drop i (c @ rest)) \<noteq> separator"
proof
  assume eq: "take (length separator) (drop i (c @ rest)) = separator"
  have len: "length separator = 25" "length separator_head = 24"
    by (simp_all add: separator_def separator_head_def)
  show False
  proof (cases "i + 24 \<le> length c")
    case True
    have tt: "take 24 ys = take 24 (take 25 ys)" for ys :: string by simp
    have "take 24 (drop i (c @ rest)) = take 24 (take 25 (drop i (c @ rest)))" by (rule tt)
    also have "\<dots> = take 24 separator" using eq by (simp only: len)
    also have "\<dots> = separator_head" by (simp add: separator_def separator_head_def)
    finally have "take 24 (drop i (c @ rest)) = separator_head" .
    moreover from True have "take 24 (drop i (c @ rest)) = take 24 (drop i c)"
      by (rule take_drop_append_left)
    ultimately have "take (length separator_head) (drop i c) = separator_head"
      by (simp add: len)
    moreover from i have "i \<le> length c" by simp
    ultimately have "occurs_in separator_head c" unfolding occurs_in_iff by blast
    with nohead show False by blast
  next
    case False
    define j where "j = length c - i"
    from False i have j: "j < 25" "i + j = length c" by (simp_all add: j_def)
    from rest show False
    proof
      assume "rest = []"
      with eq have "length separator \<le> length c - i"
        using take_eq_length [of separator "drop i c"] by simp
      with False len show False by simp
    next
      assume "\<exists>t. rest = separator @ t"
      then obtain t where t: "rest = separator @ t" by blast
      from eq j(1) have "(c @ rest) ! (i + j) = separator ! j"
        by (intro take_drop_nth) (simp_all add: len)
      with j(2) t have "separator ! 0 = separator ! j"
        by (simp add: nth_append len)
      moreover from False i have "0 < j" "j < 24" by (simp_all add: j_def)
      ultimately show False using separator_inner [of j] by (simp add: separator_def)
    qed
  qed
qed


lemma split_chunk_then_rest:
  assumes "\<not> occurs_in separator_head c"
    and "rest = [] \<or> (\<exists>t. rest = separator @ t)"
  shows "str_split_from separator cur (c @ rest) = str_split_from separator (rev c @ cur) rest"
  using assms
proof (induction c arbitrary: cur)
  case Nil
  show ?case by simp
next
  case (Cons x xs)
  from Cons.prems have "take (length separator) (drop 0 ((x # xs) @ rest)) \<noteq> separator"
    by (intro no_early_cut) simp_all
  then have nocut: "take (length separator) (x # xs @ rest) \<noteq> separator" by simp
  from Cons.prems(1) have "\<not> occurs_in separator_head xs" by simp
  from Cons.IH [OF this Cons.prems(2), of "x # cur"] nocut show ?case by simp
qed

lemma split_at_separator:
  "sep \<noteq> [] \<Longrightarrow> str_split_from sep cur (sep @ t) = rev cur # str_split_from sep [] t"
  by (cases sep) simp_all

lemma split_separator_then_rest:
  "str_split_from separator cur (separator @ t) = rev cur # str_split_from separator [] t"
  by (rule split_at_separator) (simp add: separator_def)

lemma split_join_chunks:
  assumes "chunks \<noteq> []" "\<forall>c \<in> set chunks. \<not> occurs_in separator_head c"
  shows "str_split separator (str_join separator chunks) = chunks"
  using assms
proof (induction chunks)
  case Nil
  then show ?case by simp
next
  case (Cons x xs)
  from Cons.prems(2) have x: "\<not> occurs_in separator_head x" by simp
  show ?case
  proof (cases xs)
    case Nil
    from x have "str_split_from separator [] (x @ []) = str_split_from separator (rev x @ []) []"
      by (intro split_chunk_then_rest) simp_all
    with Nil show ?thesis by (simp add: str_split_def)
  next
    case (Cons y ys)
    with Cons.IH Cons.prems(2) have ih: "str_split separator (str_join separator xs) = xs" by simp
    from x have "str_split_from separator [] (x @ separator @ str_join separator xs)
        = str_split_from separator (rev x @ []) (separator @ str_join separator xs)"
      by (intro split_chunk_then_rest) auto
    also have "\<dots> = x # str_split_from separator [] (str_join separator xs)"
      by (simp add: split_separator_then_rest)
    finally show ?thesis using ih Cons by (simp add: str_split_def)
  qed
qed

lemma stripped_chunks_fixed:
  assumes "\<forall>c \<in> set chunks. chunk_ok c"
  shows "stripped_chunks chunks = chunks"
  using assms
proof (induction chunks)
  case Nil
  show ?case by (simp add: stripped_chunks_def)
next
  case (Cons c cs)
  from Cons.prems have "strip c = c" "c \<noteq> []" by (auto simp: chunk_ok_def strip_fixed)
  moreover from Cons have "stripped_chunks cs = cs" by simp
  ultimately show ?case by (simp add: stripped_chunks_def)
qed

lemma load_try_of_saved:
  assumes "index r = Some ix" "ntotal ix = length (chunks_with_content r)"
    and "chunks_with_content r \<noteq> []"
    and "\<forall>c \<in> set (chunks_with_content r). chunk_ok c \<and> \<not> occurs_in separator_head c"
  shows "load_try r0 (save r fs)
           = (Inr (), r0\<lparr>index := Some ix, chunks_with_content := chunks_with_content r\<rparr>)"
proof -
  from assms(3) assms(4)
  have "str_split separator (str_join separator (chunks_with_content r)) = chunks_with_content r"
    by (intro split_join_chunks) auto
  moreover from assms(4) have "stripped_chunks (chunks_with_content r) = chunks_with_content r"
    by (intro stripped_chunks_fixed) auto
  ultimately show ?thesis using assms(1-3)
    by (simp add: load_try_def save_with_index read_index_def Let_def)
qed

subsection \<open>The worked example\<close>

lemma example_build:
  "build (FaissRetriever (Some length_embedder)) example_disk =
     (Inr Built,
      \<lparr>embedding_service = Some length_embedder, index = Some example_index,
       chunks_with_content = [''a'', ''bb''], initialized = False\<rparr>,
      example_disk)"
  by (simp add: string_defs faiss_defs retriever_defs example_defs)

lemma example_load:
  "load (FaissRetriever (Some length_embedder)) example_disk =
     (Inr Loaded,
      \<lparr>embedding_service = Some length_embedder, index = Some example_index,
       chunks_with_content = [''a'', ''bb''], initialized = False\<rparr>,
      example_disk)"
  by (simp add: string_defs faiss_defs retriever_defs example_defs)

lemma keeps_length_length_embedder: "keeps_length length_embedder"
  by (auto simp: keeps_length_def length_embedder_def)

lemma example_rebuild:
  "load (FaissRetriever (Some length_embedder)) rebuild_disk =
     (Inr (Rebuilt Built),
      \<lparr>embedding_service = Some length_embedder, index = Some example_index,
       chunks_with_content = [''a'', ''bb''], initialized = False\<rparr>,
      example_disk)"
  by (simp add: string_defs faiss_defs retriever_defs example_defs rebuild_disk_def)

section \<open>The properties\<close>

text \<open>
  C1 fails on the code: \<open>build\<close> never compares the number of vectors the embedding
  service returned with the number of chunks. With a provider that answers two chunks
  with one vector the build completes and saves, and the index holds one vector beside
  two chunks.
\<close>

theorem build_miscount_counterexample:
  "build (FaissRetriever (Some single_vector_embedder)) corpus_only_disk
     = (Inr Built,
        \<lparr>embedding_service = Some single_vector_embedder,
         index = Some \<lparr>faiss_d = 2, vectors = [[1, 1]]\<rparr>,
         chunks_with_content = [''a'', ''bb''], initialized = False\<rparr>,
        \<lparr>knowledge_file = Some example_corpus,
         index_file = Some (Serialized \<lparr>faiss_d = 2, vectors = [[1, 1]]\<rparr>),
         text_file = Some ''a\<newline><---CHUNK_SEPARATOR--->\<newline>bb''\<rparr>)
   \<and> ntotal \<lparr>faiss_d = 2, vectors = [[1, 1]]\<rparr> = 1
   \<and> length [''a'', ''bb''] = 2
   \<and> \<not> aligned (fst (snd (build (FaissRetriever (Some single_vector_embedder)) corpus_only_disk)))"
  by (simp add: string_defs faiss_defs retriever_defs example_defs corpus_only_disk_def
      single_vector_embedder_def aligned_def)

text \<open>
  C1, amended. After every successful load the index holds exactly as many vectors as
  the retriever holds chunks. After every successful build, run directly or as the
  fallback of a load, the same holds provided the embedding service returns one vector
  per text.
\<close>

theorem index_size_equals_chunk_count:
  "((\<forall>svc. embedding_service r = Some svc \<longrightarrow> keeps_length svc)
      \<and> fst (build r fs) = Inr Built \<longrightarrow> aligned (fst (snd (build r fs))))
   \<and> (fst (load r1 fs1) = Inr Loaded \<longrightarrow> aligned (fst (snd (load r1 fs1))))
   \<and> ((\<forall>svc. embedding_service r2 = Some svc \<longrightarrow> keeps_length svc)
      \<and> fst (load r2 fs2) = Inr (Rebuilt Built) \<longrightarrow> aligned (fst (snd (load r2 fs2))))"
proof (intro conjI impI)
  assume "(\<forall>svc. embedding_service r = Some svc \<longrightarrow> keeps_length svc) \<and> fst (build r fs) = Inr Built"
  then show "aligned (fst (snd (build r fs)))" using build_Built_aligned by blast
next
  assume "fst (load r1 fs1) = Inr Loaded"
  then show "aligned (fst (snd (load r1 fs1)))" by (rule load_Loaded_aligned)
next
  assume a: "(\<forall>svc. embedding_service r2 = Some svc \<longrightarrow> keeps_length svc)
      \<and> fst (load r2 fs2) = Inr (Rebuilt Built)"
  let ?r = "snd (load_try r2 fs2)"
  from a have b: "fst (build ?r fs2) = Inr Built" and e: "\<exists>e. fst (load_try r2 fs2) = Inl e"
    by (auto simp: load_result split: sum.splits)
  from a have "\<forall>svc. embedding_service ?r = Some svc \<longrightarrow> keeps_length svc"
    by (simp add: load_try_embedding_service)
  with b have "aligned (fst (snd (build ?r fs2)))" by (rule build_Built_aligned)
  with e show "aligned (fst (snd (load r2 fs2)))" by (auto simp: load_state)
qed

theorem index_size_equals_chunk_count_witness:
  "fst (build (FaissRetriever (Some length_embedder)) example_disk) = Inr Built
   \<and> aligned (fst (snd (build (FaissRetriever (Some length_embedder)) example_disk)))
   \<and> fst (load (FaissRetriever (Some length_embedder)) example_disk) = Inr Loaded
   \<and> aligned (fst (snd (load (FaissRetriever (Some length_embedder)) example_disk)))
   \<and> fst (load (FaissRetriever (Some length_embedder)) rebuild_disk) = Inr (Rebuilt Built)
   \<and> aligned (fst (snd (load (FaissRetriever (Some length_embedder)) rebuild_disk)))"
proof -
  let ?r = "FaissRetriever (Some length_embedder)"
  have k: "\<forall>svc. embedding_service ?r = Some svc \<longrightarrow> keeps_length svc"
    by (simp add: FaissRetriever_def keeps_length_length_embedder)
  have b: "fst (build ?r example_disk) = Inr Built" by (simp add: example_build)
  have l: "fst (load ?r example_disk) = Inr Loaded" by (simp add: example_load)
  have rb: "fst (load ?r rebuild_disk) = Inr (Rebuilt Built)" by (simp add: example_rebuild)
  from index_size_equals_chunk_count [of ?r example_disk ?r example_disk ?r rebuild_disk] k b l rb
  show ?thesis by blast
qed

text \<open>
  C2 fails on the code: on a corpus of blank paragraphs \<open>build\<close> returns normally, on the
  path that prints the warning; nothing is raised.
\<close>

theorem build_empty_corpus_counterexample:
  "stripped_chunks (str_split ''\<newline>\<newline>'' '' \<newline>\<newline>\<newline>\<newline>  '') = []
   \<and> build (FaissRetriever (Some length_embedder)) blank_corpus_disk
       = (Inr No_chunks, FaissRetriever (Some length_embedder), blank_corpus_disk)"
  by (simp add: string_defs retriever_defs blank_corpus_disk_def)

text \<open>
  C2, amended. When the corpus yields no non-empty chunk, \<open>build\<close> (with an embedding
  service) raises nothing: it returns on the warning path, with the empty chunk list in
  memory, the index as it was and the disk untouched, so no index over zero vectors is
  built or saved.
\<close>

theorem build_empty_corpus_warns:
  assumes "embedding_service r = Some svc"
    and "knowledge_file fs = Some content"
    and "stripped_chunks (str_split ''\<newline>\<newline>'' content) = []"
  shows "build r fs = (Inr No_chunks, r\<lparr>chunks_with_content := []\<rparr>, fs)
         \<and> index (fst (snd (build r fs))) = index r"
  using assms build_no_chunks [of r svc fs content] by simp

theorem build_empty_corpus_warns_witness:
  "embedding_service (FaissRetriever (Some length_embedder)) = Some length_embedder
   \<and> knowledge_file blank_corpus_disk = Some '' \<newline>\<newline>\<newline>\<newline>  ''
   \<and> stripped_chunks (str_split ''\<newline>\<newline>'' '' \<newline>\<newline>\<newline>\<newline>  '') = []
   \<and> fst (build (FaissRetriever (Some length_embedder)) blank_corpus_disk) = Inr No_chunks
   \<and> index (fst (snd (build (FaissRetriever (Some length_embedder)) blank_corpus_disk))) = None"
proof -
  let ?r = "FaissRetriever (Some length_embedder)"
  have a: "embedding_service ?r = Some length_embedder" by (simp add: FaissRetriever_def)
  have b: "knowledge_file blank_corpus_disk = Some '' \<newline>\<newline>\<newline>\<newline>  ''"
    by (simp add: blank_corpus_disk_def)
  have c: "stripped_chunks (str_split ''\<newline>\<newline>'' '' \<newline>\<newline>\<newline>\<newline>  '') = []"
    by (simp add: string_defs)
  have d: "index ?r = None" by (simp add: FaissRetriever_def)
  from build_empty_corpus_warns [OF a b c] a b c d show ?thesis by simp
qed

text \<open>
  C3 fails on the code: with no corpus file, and likewise with a provider that is down,
  \<open>initialize\<close> returns normally and leaves the retriever marked initialised.
\<close>

theorem initialize_failure_counterexample:
  "initialize (FaissRetriever (Some length_embedder)) empty_disk
     = (Inr (), (FaissRetriever (Some length_embedder))\<lparr>initialized := True\<rparr>, empty_disk)
   \<and> fst (initialize (FaissRetriever (Some failing_embedder)) corpus_only_disk) = Inr ()
   \<and> initialized (fst (snd (initialize (FaissRetriever (Some failing_embedder)) corpus_only_disk)))"
  by (simp add: string_defs retriever_defs example_defs empty_disk_def corpus_only_disk_def)

text \<open>
  C3, amended. When the corpus file is unavailable or the embedding call fails during
  \<open>initialize\<close> on a retriever that is not yet initialised, the call returns normally
  and the retriever is marked initialised; the failure is printed, not propagated. When
  no artifact was on disk, the index stays as it was and nothing is written, and with no
  index a later \<open>search\<close> answers with the fixed "not initialized" string.
\<close>

theorem initialize_failure_swallowed:
  assumes "\<not> initialized r"
    and "embedding_service r = Some svc"
    and "knowledge_file fs = None
         \<or> (\<exists>content e. knowledge_file fs = Some content
               \<and> svc (stripped_chunks (str_split ''\<newline>\<newline>'' content)) = Inl e)"
  shows "fst (initialize r fs) = Inr ()
         \<and> initialized (fst (snd (initialize r fs)))
         \<and> (index_file fs = None \<or> text_file fs = None \<longrightarrow>
              index (fst (snd (initialize r fs))) = index r
              \<and> snd (snd (initialize r fs)) = fs
              \<and> (index r = None \<longrightarrow>
                   fst (search (fst (snd (initialize r fs))) (snd (snd (initialize r fs))) query k)
                     = Inr msg_not_initialized))"
proof (intro conjI impI)
  show "fst (initialize r fs) = Inr ()" by (rule initialize_returns)
  show "initialized (fst (snd (initialize r fs)))" by (rule initialize_initialized)
next
  assume na: "index_file fs = None \<or> text_file fs = None"
  with assms(1) have i: "initialize r fs
      = (Inr (), (fst (snd (build r fs)))\<lparr>initialized := True\<rparr>, snd (snd (build r fs)))"
    by (auto simp: initialize_unfold)
  from build_fails_keeps [OF assms(2) assms(3)]
  have k: "index (fst (snd (build r fs))) = index r" "snd (snd (build r fs)) = fs" by simp_all
  from i k show "index (fst (snd (initialize r fs))) = index r" by simp
  from i k show "snd (snd (initialize r fs)) = fs" by simp
  assume "index r = None"
  with i k show "fst (search (fst (snd (initialize r fs))) (snd (snd (initialize r fs))) query k)
                     = Inr msg_not_initialized"
    by (simp add: search_unfold Let_def)
qed

theorem initialize_failure_swallowed_witness:
  "\<not> initialized (FaissRetriever (Some length_embedder))
   \<and> embedding_service (FaissRetriever (Some length_embedder)) = Some length_embedder
   \<and> knowledge_file empty_disk = None
   \<and> index_file empty_disk = None
   \<and> index (FaissRetriever (Some length_embedder)) = None
   \<and> fst (initialize (FaissRetriever (Some length_embedder)) empty_disk) = Inr ()
   \<and> initialized (fst (snd (initialize (FaissRetriever (Some length_embedder)) empty_disk)))
   \<and> fst (search (fst (snd (initialize (FaissRetriever (Some length_embedder)) empty_disk)))
             (snd (snd (initialize (FaissRetriever (Some length_embedder)) empty_disk))) ''q'' 2)
       = Inr msg_not_initialized"
proof -
  let ?r = "FaissRetriever (Some length_embedder)"
  have a: "\<not> initialized ?r" by (simp add: FaissRetriever_def)
  have b: "embedding_service ?r = Some length_embedder" by (simp add: FaissRetriever_def)
  have c: "knowledge_file empty_disk = None
         \<or> (\<exists>content e. knowledge_file empty_disk = Some content
               \<and> length_embedder (stripped_chunks (str_split ''\<newline>\<newline>'' content)) = Inl e)"
    by (simp add: empty_disk_def)
  have d: "index_file empty_disk = None" "knowledge_file empty_disk = None"
    by (simp_all add: empty_disk_def)
  have e: "index ?r = None" by (simp add: FaissRetriever_def)
  from initialize_failure_swallowed [OF a b c, of "''q''" 2] a b d e show ?thesis by blast
qed

text \<open>
  C4 fails on the code: the text file has lost a chunk and the corpus is gone, so the
  rebuild fails; \<open>initialize\<close> still returns normally, keeps the index of two vectors
  beside the one chunk read, marks the retriever initialised, and \<open>search\<close> then answers
  from them: the nearest vector has no chunk and the second nearest is returned.
\<close>

theorem stale_artifact_counterexample:
  "initialize (FaissRetriever (Some length_embedder)) stale_disk
     = (Inr (),
        \<lparr>embedding_service = Some length_embedder, index = Some example_index,
         chunks_with_content = [''a''], initialized = True\<rparr>,
        stale_disk)
   \<and> ntotal example_index = 2
   \<and> fst (search \<lparr>embedding_service = Some length_embedder, index = Some example_index,
                  chunks_with_content = [''a''], initialized = True\<rparr> stale_disk ''bb'' 2)
       = Inr ''a''"
  by (simp add: string_defs faiss_defs retriever_defs example_defs stale_disk_def
      upt_conv_Cons collect_results_filter)

text \<open>
  C4, amended. On an artifact whose two files disagree, \<open>load\<close> never reports a load: it
  always goes on to a full rebuild. When that rebuild succeeds (the embedding service
  keeping its contract), the retriever holds the chunks of the corpus and an index of as
  many vectors, and the index file is replaced by that index. \<open>initialize\<close> on a
  retriever not yet initialised, with both files present, leaves exactly the state of
  that \<open>load\<close>, marked initialised.
\<close>

theorem inconsistent_artifact_rebuilds:
  assumes "artifact_inconsistent fs"
  shows "(\<exists>rep. fst (load r fs) = Inr (Rebuilt rep))
         \<and> ((\<forall>svc. embedding_service r = Some svc \<longrightarrow> keeps_length svc)
              \<and> fst (load r fs) = Inr (Rebuilt Built)
            \<longrightarrow> aligned (fst (snd (load r fs)))
                \<and> (\<exists>content. knowledge_file fs = Some content
                      \<and> chunks_with_content (fst (snd (load r fs)))
                          = stripped_chunks (str_split ''\<newline>\<newline>'' content))
                \<and> index_file (snd (snd (load r fs)))
                    = map_option Serialized (index (fst (snd (load r fs)))))
         \<and> (\<not> initialized r \<and> index_file fs \<noteq> None \<and> text_file fs \<noteq> None
            \<longrightarrow> initialize r fs
                  = (Inr (), (fst (snd (load r fs)))\<lparr>initialized := True\<rparr>, snd (snd (load r fs))))"
proof (intro conjI impI)
  from inconsistent_load_try_fails [OF assms] obtain e where e: "fst (load_try r fs) = Inl e"
    by blast
  let ?r = "snd (load_try r fs)"
  obtain bres br bfs where b: "build ?r fs = (bres, br, bfs)" by (cases "build ?r fs")
  from build_returns [of ?r fs] b obtain rep where rep: "bres = Inr rep" by auto
  have l: "load r fs = (Inr (Rebuilt rep), br, bfs)"
    using e b rep by (cases "load_try r fs") (simp add: load_def)
  then show "\<exists>rep. fst (load r fs) = Inr (Rebuilt rep)" by simp
  assume a: "(\<forall>svc. embedding_service r = Some svc \<longrightarrow> keeps_length svc)
              \<and> fst (load r fs) = Inr (Rebuilt Built)"
  with l have built: "fst (build ?r fs) = Inr Built" using b rep by simp
  from a have "\<forall>svc. embedding_service ?r = Some svc \<longrightarrow> keeps_length svc"
    by (simp add: load_try_embedding_service)
  with built have "aligned (fst (snd (build ?r fs)))" by (rule build_Built_aligned)
  with l b show "aligned (fst (snd (load r fs)))" by simp
  from build_Built [OF built] obtain svc content vs dd where
    h: "embedding_service ?r = Some svc" "knowledge_file fs = Some content"
       "stripped_chunks (str_split ''\<newline>\<newline>'' content) \<noteq> []"
       "svc (stripped_chunks (str_split ''\<newline>\<newline>'' content)) = Inr vs"
       "shape1 vs = Inr dd"
    by blast
  note s = build_succeeds [of ?r svc fs content vs dd]
  from h s l b show "\<exists>content. knowledge_file fs = Some content
                      \<and> chunks_with_content (fst (snd (load r fs)))
                          = stripped_chunks (str_split ''\<newline>\<newline>'' content)"
    by simp
  from h s l b show "index_file (snd (snd (load r fs)))
                    = map_option Serialized (index (fst (snd (load r fs))))"
    by simp
next
  assume "\<not> initialized r \<and> index_file fs \<noteq> None \<and> text_file fs \<noteq> None"
  then show "initialize r fs
                  = (Inr (), (fst (snd (load r fs)))\<lparr>initialized := True\<rparr>, snd (snd (load r fs)))"
    by (simp add: initialize_unfold)
qed

theorem inconsistent_artifact_rebuilds_witness:
  "artifact_inconsistent rebuild_disk
   \<and> fst (load (FaissRetriever (Some length_embedder)) rebuild_disk) = Inr (Rebuilt Built)
   \<and> \<not> initialized (FaissRetriever (Some length_embedder))
   \<and> index_file rebuild_disk \<noteq> None \<and> text_file rebuild_disk \<noteq> None
   \<and> aligned (fst (snd (load (FaissRetriever (Some length_embedder)) rebuild_disk)))
   \<and> index_file (snd (snd (load (FaissRetriever (Some length_embedder)) rebuild_disk)))
       = map_option Serialized (index (fst (snd (load (FaissRetriever (Some length_embedder)) rebuild_disk))))
   \<and> initialize (FaissRetriever (Some length_embedder)) rebuild_disk
       = (Inr (), (fst (snd (load (FaissRetriever (Some length_embedder)) rebuild_disk)))\<lparr>initialized := True\<rparr>,
          snd (snd (load (FaissRetriever (Some length_embedder)) rebuild_disk)))"
proof -
  let ?r = "FaissRetriever (Some length_embedder)"
  have a: "artifact_inconsistent rebuild_disk"
    by (simp add: artifact_inconsistent_def rebuild_disk_def read_index_def)
  have k: "\<forall>svc. embedding_service ?r = Some svc \<longrightarrow> keeps_length svc"
    by (simp add: FaissRetriever_def keeps_length_length_embedder)
  have rb: "fst (load ?r rebuild_disk) = Inr (Rebuilt Built)" by (simp add: example_rebuild)
  have p: "\<not> initialized ?r \<and> index_file rebuild_disk \<noteq> None \<and> text_file rebuild_disk \<noteq> None"
    by (simp add: FaissRetriever_def rebuild_disk_def)
  from inconsistent_artifact_rebuilds [OF a, of ?r] k rb p a show ?thesis by blast
qed

text \<open>
  C5 fails on the code: the corpus whose first paragraph ends in the marker line is built
  and saved; loading the saved artifact succeeds, the counts agree, but the cut has moved:
  ordinal 1 was \<open>b\<close> and now is the marker line followed by \<open>b\<close>.
\<close>

theorem save_load_counterexample:
  "build (FaissRetriever (Some length_embedder)) shifted_disk
     = (Inr Built, shifted_retriever, save shifted_retriever shifted_disk)
   \<and> fst (load shifted_retriever (save shifted_retriever shifted_disk)) = Inr Loaded
   \<and> chunks_with_content shifted_retriever ! 1 = ''b''
   \<and> chunks_with_content (fst (snd (load shifted_retriever (save shifted_retriever shifted_disk)))) ! 1
       = ''<---CHUNK_SEPARATOR--->\<newline>b''"
  by (simp add: string_defs faiss_defs retriever_defs example_defs shifted_corpus_def
      shifted_disk_def shifted_retriever_def)

text \<open>
  C5, amended. For every built state (an index aligned with a non-empty sequence of
  stripped, non-empty chunks) in which no chunk holds a line break followed by the marker
  line, \<open>save\<close> followed by \<open>load\<close> succeeds and restores the same index and the same chunk
  sequence: every ordinal maps to the same text and every query retrieves the same
  chunks as before the save.
\<close>

theorem save_load_restores:
  assumes "index r = Some ix"
    and "ntotal ix = length (chunks_with_content r)"
    and "chunks_with_content r \<noteq> []"
    and "\<forall>c \<in> set (chunks_with_content r). chunk_ok c \<and> \<not> occurs_in separator_head c"
  shows "load r0 (save r fs)
           = (Inr Loaded, r0\<lparr>index := Some ix, chunks_with_content := chunks_with_content r\<rparr>,
              save r fs)
         \<and> index (fst (snd (load r0 (save r fs)))) = index r
         \<and> chunks_with_content (fst (snd (load r0 (save r fs)))) = chunks_with_content r
         \<and> search_results svc (the (index (fst (snd (load r0 (save r fs))))))
               (chunks_with_content (fst (snd (load r0 (save r fs))))) query k
             = search_results svc ix (chunks_with_content r) query k"
proof -
  have l: "load r0 (save r fs)
           = (Inr Loaded, r0\<lparr>index := Some ix, chunks_with_content := chunks_with_content r\<rparr>,
              save r fs)"
    using load_try_of_saved [OF assms, of r0 fs] by (simp add: load_def)
  with assms(1) show ?thesis by simp
qed

theorem save_load_restores_witness:
  "index (ready_retriever length_embedder) = Some example_index
   \<and> ntotal example_index = length (chunks_with_content (ready_retriever length_embedder))
   \<and> chunks_with_content (ready_retriever length_embedder) = [''a'', ''bb'']
   \<and> chunk_ok ''a'' \<and> chunk_ok ''bb''
   \<and> \<not> occurs_in separator_head ''a'' \<and> \<not> occurs_in separator_head ''bb''
   \<and> fst (load (FaissRetriever None) (save (ready_retriever length_embedder) empty_disk)) = Inr Loaded
   \<and> index (fst (snd (load (FaissRetriever None) (save (ready_retriever length_embedder) empty_disk))))
       = Some example_index
   \<and> chunks_with_content (fst (snd (load (FaissRetriever None) (save (ready_retriever length_embedder) empty_disk))))
       = [''a'', ''bb'']"
proof -
  let ?r = "ready_retriever length_embedder"
  have a: "index ?r = Some example_index" by (simp add: ready_retriever_def)
  have b: "ntotal example_index = length (chunks_with_content ?r)"
    by (simp add: ready_retriever_def ntotal_def example_index_def)
  have c: "chunks_with_content ?r = [''a'', ''bb'']" by (simp add: ready_retriever_def)
  have d: "chunk_ok ''a'' \<and> chunk_ok ''bb''
           \<and> \<not> occurs_in separator_head ''a'' \<and> \<not> occurs_in separator_head ''bb''"
    by (simp add: chunk_ok_def isspace_def whitespace_def separator_head_def)
  from c have ne: "chunks_with_content ?r \<noteq> []" by simp
  from c d have ok: "\<forall>c \<in> set (chunks_with_content ?r). chunk_ok c \<and> \<not> occurs_in separator_head c"
    by simp
  note t = save_load_restores [OF a b ne ok, of "FaissRetriever None" empty_disk length_embedder "''q''" 2]
  from t have "load (FaissRetriever None) (save ?r empty_disk)
      = (Inr Loaded,
         (FaissRetriever None)\<lparr>index := Some example_index,
                                 chunks_with_content := chunks_with_content ?r\<rparr>,
         save ?r empty_disk)"
    by (rule conjunct1)
  then have x: "fst (load (FaissRetriever None) (save ?r empty_disk)) = Inr Loaded" by simp
  from t have y: "index (fst (snd (load (FaissRetriever None) (save ?r empty_disk)))) = index ?r"
    by blast
  from t have z: "chunks_with_content (fst (snd (load (FaissRetriever None) (save ?r empty_disk))))
      = chunks_with_content ?r"
    by blast
  from a b c d x y z show ?thesis by simp
qed

text \<open>
  C6 fails on the code: a corpus whose only chunk holds the separator is built and saved
  without complaint, the chunk written as it is.
\<close>

theorem separator_in_chunk_counterexample:
  "occurs_in separator separator_corpus
   \<and> stripped_chunks (str_split ''\<newline>\<newline>'' separator_corpus) = [separator_corpus]
   \<and> fst (build (FaissRetriever (Some length_embedder)) separator_corpus_disk) = Inr Built
   \<and> text_file (snd (snd (build (FaissRetriever (Some length_embedder)) separator_corpus_disk)))
       = Some separator_corpus"
  by (simp add: string_defs faiss_defs retriever_defs example_defs separator_corpus_def
      separator_corpus_disk_def)

text \<open>
  C6, amended. \<open>build\<close> and \<open>save\<close> look at no chunk's content: for every corpus with at
  least one non-empty chunk, whether or not a chunk holds the separator, a build whose
  embedding call succeeds completes and writes the chunks as they are, joined by the
  separator; \<open>save\<close> writes the chunks in memory the same way whenever there is an index.
\<close>

theorem build_persists_chunks_unvalidated:
  "(embedding_service r = Some svc \<and> knowledge_file fs = Some content
      \<and> stripped_chunks (str_split ''\<newline>\<newline>'' content) \<noteq> []
      \<and> svc (stripped_chunks (str_split ''\<newline>\<newline>'' content)) = Inr vs
      \<and> shape1 vs = Inr dd
     \<longrightarrow> fst (build r fs) = Inr Built
         \<and> chunks_with_content (fst (snd (build r fs)))
             = stripped_chunks (str_split ''\<newline>\<newline>'' content)
         \<and> text_file (snd (snd (build r fs)))
             = Some (str_join separator (stripped_chunks (str_split ''\<newline>\<newline>'' content))))
   \<and> (index r1 = Some ix1
     \<longrightarrow> text_file (save r1 fs1) = Some (str_join separator (chunks_with_content r1)))"
proof (intro conjI impI)
  assume a: "embedding_service r = Some svc \<and> knowledge_file fs = Some content
      \<and> stripped_chunks (str_split ''\<newline>\<newline>'' content) \<noteq> []
      \<and> svc (stripped_chunks (str_split ''\<newline>\<newline>'' content)) = Inr vs
      \<and> shape1 vs = Inr dd"
  then have b: "build r fs =
           (Inr Built,
            r\<lparr>chunks_with_content := stripped_chunks (str_split ''\<newline>\<newline>'' content),
              index := Some \<lparr>faiss_d = dd, vectors = vs\<rparr>\<rparr>,
            fs\<lparr>index_file := Some (Serialized \<lparr>faiss_d = dd, vectors = vs\<rparr>),
               text_file := Some (str_join separator
                                    (stripped_chunks (str_split ''\<newline>\<newline>'' content)))\<rparr>)"
    using build_succeeds [of r svc fs content vs dd] by blast
  from b show "fst (build r fs) = Inr Built" by simp
  from b show "chunks_with_content (fst (snd (build r fs)))
             = stripped_chunks (str_split ''\<newline>\<newline>'' content)" by simp
  from b show "text_file (snd (snd (build r fs)))
             = Some (str_join separator (stripped_chunks (str_split ''\<newline>\<newline>'' content)))"
    by simp
next
  assume "index r1 = Some ix1"
  then show "text_file (save r1 fs1) = Some (str_join separator (chunks_with_content r1))"
    by (simp add: save_with_index)
qed

theorem build_persists_chunks_unvalidated_witness:
  "occurs_in separator separator_corpus
   \<and> stripped_chunks (str_split ''\<newline>\<newline>'' separator_corpus) = [separator_corpus]
   \<and> length_embedder [separator_corpus] = Inr [[27, 1]]
   \<and> shape1 [[27, 1]] = Inr 2
   \<and> fst (build (FaissRetriever (Some length_embedder)) separator_corpus_disk) = Inr Built
   \<and> chunks_with_content (fst (snd (build (FaissRetriever (Some length_embedder)) separator_corpus_disk)))
       = [separator_corpus]
   \<and> index (ready_retriever length_embedder) = Some example_index
   \<and> text_file (save (ready_retriever length_embedder) empty_disk)
       = Some (str_join separator [''a'', ''bb''])"
proof -
  let ?r = "FaissRetriever (Some length_embedder)"
  have o: "occurs_in separator separator_corpus"
    by (simp add: separator_def separator_corpus_def)
  have c: "stripped_chunks (str_split ''\<newline>\<newline>'' separator_corpus) = [separator_corpus]"
    by (simp add: string_defs separator_corpus_def)
  have e: "length_embedder [separator_corpus] = Inr [[27, 1]]"
    by (simp add: length_embedder_def separator_corpus_def)
  have s: "shape1 [[27, 1]] = Inr 2" by (simp add: shape1_def)
  have a: "embedding_service ?r = Some length_embedder
           \<and> knowledge_file separator_corpus_disk = Some separator_corpus"
    by (simp add: FaissRetriever_def separator_corpus_disk_def)
  have i: "index (ready_retriever length_embedder) = Some example_index"
    "chunks_with_content (ready_retriever length_embedder) = [''a'', ''bb'']"
    by (simp_all add: ready_retriever_def)
  from build_persists_chunks_unvalidated [of ?r length_embedder separator_corpus_disk separator_corpus
      "[[27, 1]]" 2 "ready_retriever length_embedder" example_index empty_disk] a c e s i
  have "fst (build ?r separator_corpus_disk) = Inr Built
         \<and> chunks_with_content (fst (snd (build ?r separator_corpus_disk))) = [separator_corpus]
         \<and> text_file (save (ready_retriever length_embedder) empty_disk)
             = Some (str_join separator [''a'', ''bb''])"
    by simp
  with o c e s i(1) show ?thesis by blast
qed

text \<open>
  C7. The chunker returns exactly the non-blank paragraphs of the corpus, each stripped,
  in their order, so as many chunks as there are non-blank paragraphs, each non-empty and
  without whitespace at its ends. The paragraphs are the pieces between double newlines:
  joined by double newlines they give the text back, and none holds a double newline.
  \<open>chunk_text\<close> reads the corpus with Windows line ends replaced; \<open>build\<close> reads it as it is.
\<close>

theorem chunker_returns_nonblank_paragraphs:
  "chunk_text content =
     map strip (filter (\<lambda>p. \<not> blank p)
       (str_split ''\<newline>\<newline>'' (str_replace [CHR 0x0D, CHR 0x0A] ''\<newline>'' content)))
   \<and> length (chunk_text content) =
       length (filter (\<lambda>p. \<not> blank p)
         (str_split ''\<newline>\<newline>'' (str_replace [CHR 0x0D, CHR 0x0A] ''\<newline>'' content)))
   \<and> (\<forall>c \<in> set (chunk_text content). chunk_ok c)
   \<and> str_join ''\<newline>\<newline>''
         (str_split ''\<newline>\<newline>'' (str_replace [CHR 0x0D, CHR 0x0A] ''\<newline>'' content))
       = str_replace [CHR 0x0D, CHR 0x0A] ''\<newline>'' content
   \<and> (\<forall>p \<in> set (str_split ''\<newline>\<newline>'' (str_replace [CHR 0x0D, CHR 0x0A] ''\<newline>'' content)).
         \<not> occurs_in ''\<newline>\<newline>'' p)
   \<and> (embedding_service r \<noteq> None \<and> knowledge_file fs = Some corpus \<longrightarrow>
        chunks_with_content (fst (snd (build r fs))) =
          map strip (filter (\<lambda>p. \<not> blank p) (str_split ''\<newline>\<newline>'' corpus)))"
proof (intro conjI impI)
  show "chunk_text content =
     map strip (filter (\<lambda>p. \<not> blank p)
       (str_split ''\<newline>\<newline>'' (str_replace [CHR 0x0D, CHR 0x0A] ''\<newline>'' content)))"
    by (simp add: chunk_text_def stripped_chunks_blank)
  then show "length (chunk_text content) =
       length (filter (\<lambda>p. \<not> blank p)
         (str_split ''\<newline>\<newline>'' (str_replace [CHR 0x0D, CHR 0x0A] ''\<newline>'' content)))"
    by simp
  show "\<forall>c \<in> set (chunk_text content). chunk_ok c"
    by (simp add: chunk_text_def stripped_chunks_ok)
  show "str_join ''\<newline>\<newline>''
         (str_split ''\<newline>\<newline>'' (str_replace [CHR 0x0D, CHR 0x0A] ''\<newline>'' content))
       = str_replace [CHR 0x0D, CHR 0x0A] ''\<newline>'' content"
    by (rule str_join_split)
  show "\<forall>p \<in> set (str_split ''\<newline>\<newline>'' (str_replace [CHR 0x0D, CHR 0x0A] ''\<newline>'' content)).
         \<not> occurs_in ''\<newline>\<newline>'' p"
    using str_split_pieces [of "''\<newline>\<newline>''"] by blast
next
  assume "embedding_service r \<noteq> None \<and> knowledge_file fs = Some corpus"
  then show "chunks_with_content (fst (snd (build r fs))) =
          map strip (filter (\<lambda>p. \<not> blank p) (str_split ''\<newline>\<newline>'' corpus))"
    by (auto simp: build_chunks stripped_chunks_blank)
qed

theorem chunker_returns_nonblank_paragraphs_witness:
  "chunk_text crlf_corpus = [''a'', ''bb \<newline>c'']
   \<and> length (filter (\<lambda>p. \<not> blank p)
         (str_split ''\<newline>\<newline>'' (str_replace [CHR 0x0D, CHR 0x0A] ''\<newline>'' crlf_corpus))) = 2
   \<and> knowledge_file example_disk = Some example_corpus
   \<and> embedding_service (FaissRetriever (Some length_embedder)) \<noteq> None
   \<and> chunks_with_content (fst (snd (build (FaissRetriever (Some length_embedder)) example_disk)))
       = map strip (filter (\<lambda>p. \<not> blank p) [''a'', '' '', ''bb''])"
proof -
  have a: "chunk_text crlf_corpus = [''a'', ''bb \<newline>c'']"
    by (simp add: chunk_text_def crlf_corpus_def string_defs)
  have k: "knowledge_file example_disk = Some example_corpus" by (simp add: example_disk_def)
  have s: "str_split ''\<newline>\<newline>'' example_corpus = [''a'', '' '', ''bb'']"
    by (simp add: example_corpus_def str_split_def)
  have e: "embedding_service (FaissRetriever (Some length_embedder)) \<noteq> None"
    by (simp add: FaissRetriever_def)
  from chunker_returns_nonblank_paragraphs [of crlf_corpus "FaissRetriever (Some length_embedder)"
      example_disk example_corpus] a k s e
  show ?thesis by simp
qed

text \<open>
  C8. On an index aligned with its chunks, a query that the provider embeds into a vector
  of the index's dimension, asked with \<open>k > 0\<close>, retrieves exactly \<open>min k N\<close> chunks, all
  of them stored chunks, and \<open>search\<close> answers with these joined by a blank line.
  Whatever the index returned, \<open>search\<close> retrieves at most \<open>k\<close> chunks, and its loop takes
  the chunks of the labels inside the chunk list and passes over every other label.
  \<open>search_faiss\<close> of rag.py retrieves \<open>min k N\<close> chunks likewise.
\<close>

theorem search_retrieves_min_k_n:
  "(ntotal ix = length chunks \<and> svc [query] = Inr (v # rest) \<and> length v = faiss_d ix \<and> 0 < k
      \<longrightarrow> (\<exists>results. search_results svc ix chunks query k = Inr results
               \<and> length results = min (nat k) (length chunks)
               \<and> length results \<le> nat k
               \<and> set results \<subseteq> set chunks))
   \<and> (search_results svc1 ix1 chunks1 query1 k1 = Inr results1 \<longrightarrow> length results1 \<le> nat k1)
   \<and> collect_results chunks2 indices =
       map (\<lambda>i. chunks2 ! nat i) (filter (\<lambda>i. 0 \<le> i \<and> i < int (length chunks2)) indices)
   \<and> (initialized r \<and> index r = Some ix3 \<and> embedding_service r = Some svc3
        \<and> search_results svc3 ix3 (chunks_with_content r) query3 k3 = Inr results3
        \<and> results3 \<noteq> []
      \<longrightarrow> search r fs query3 k3 = (Inr (str_join ''\<newline>\<newline>'' results3), r, fs))
   \<and> (is_ready g \<and> faiss_index g = Some ix4 \<and> text_chunks g = Some chunks4
        \<and> ntotal ix4 = length chunks4 \<and> embed_content query4 = Inr v4
        \<and> length v4 = faiss_d ix4 \<and> 0 < k4
      \<longrightarrow> (\<exists>hits. search_faiss g embed_content query4 k4 = Inr hits
               \<and> length hits = min (nat k4) (length chunks4)
               \<and> set (map hit_text hits) \<subseteq> set chunks4))"
proof (intro conjI impI)
  assume a: "ntotal ix = length chunks \<and> svc [query] = Inr (v # rest) \<and> length v = faiss_d ix \<and> 0 < k"
  then have s: "search_results svc ix chunks query k = Inr (map (\<lambda>i. chunks ! i) (nearest ix v k))"
    using search_results_aligned [of ix chunks svc query v rest k] by blast
  have "set (map (\<lambda>i. chunks ! i) (nearest ix v k)) \<subseteq> set chunks"
    using nearest_range [of _ ix v k] a by auto
  with s a show "\<exists>results. search_results svc ix chunks query k = Inr results
               \<and> length results = min (nat k) (length chunks)
               \<and> length results \<le> nat k
               \<and> set results \<subseteq> set chunks"
    by (simp add: nearest_length)
next
  assume "search_results svc1 ix1 chunks1 query1 k1 = Inr results1"
  then show "length results1 \<le> nat k1" by (rule search_results_at_most_k)
next
  show "collect_results chunks2 indices =
       map (\<lambda>i. chunks2 ! nat i) (filter (\<lambda>i. 0 \<le> i \<and> i < int (length chunks2)) indices)"
    by (rule collect_results_filter)
next
  assume "initialized r \<and> index r = Some ix3 \<and> embedding_service r = Some svc3
        \<and> search_results svc3 ix3 (chunks_with_content r) query3 k3 = Inr results3
        \<and> results3 \<noteq> []"
  then show "search r fs query3 k3 = (Inr (str_join ''\<newline>\<newline>'' results3), r, fs)"
    by (simp add: search_unfold Let_def)
next
  assume a: "is_ready g \<and> faiss_index g = Some ix4 \<and> text_chunks g = Some chunks4
        \<and> ntotal ix4 = length chunks4 \<and> embed_content query4 = Inr v4
        \<and> length v4 = faiss_d ix4 \<and> 0 < k4"
  then obtain hits where h: "search_faiss g embed_content query4 k4 = Inr hits"
      "map hit_text hits = map (\<lambda>i. chunks4 ! i) (nearest ix4 v4 k4)"
    using search_faiss_aligned [of g ix4 chunks4 embed_content query4 v4 k4] by blast
  from h(2) have "length hits = length (nearest ix4 v4 k4)"
    by (metis length_map)
  moreover have "set (map (\<lambda>i. chunks4 ! i) (nearest ix4 v4 k4)) \<subseteq> set chunks4"
    using nearest_range [of _ ix4 v4 k4] a by auto
  then have "set (map hit_text hits) \<subseteq> set chunks4" unfolding h(2) .
  ultimately show "\<exists>hits. search_faiss g embed_content query4 k4 = Inr hits
               \<and> length hits = min (nat k4) (length chunks4)
               \<and> set (map hit_text hits) \<subseteq> set chunks4"
    using h(1) a by (simp add: nearest_length del: set_map)
qed

theorem search_retrieves_min_k_n_witness:
  "ntotal example_index = length [''a'', ''bb'']
   \<and> length_embedder [''qq''] = Inr ([2, 1] # [])
   \<and> length [2, 1 :: real] = faiss_d example_index
   \<and> search_results length_embedder example_index [''a'', ''bb''] ''qq'' 5 = Inr [''bb'', ''a'']
   \<and> length [''bb'', ''a''] = min (nat 5) (length [''a'', ''bb''])
   \<and> search (ready_retriever length_embedder) example_disk ''qq'' 5
       = (Inr ''bb\<newline>\<newline>a'', ready_retriever length_embedder, example_disk)
   \<and> (\<exists>hits. search_faiss ready_rag length_embed_content ''qq'' 5 = Inr hits
         \<and> length hits = min (nat 5) (length [''a'', ''bb'']))"
proof -
  let ?r = "ready_retriever length_embedder"
  have a: "ntotal example_index = length [''a'', ''bb''] \<and> length_embedder [''qq''] = Inr ([2, 1] # [])
           \<and> length [2, 1 :: real] = faiss_d example_index \<and> (0::int) < 5"
    by (simp add: ntotal_def example_index_def length_embedder_def)
  have b: "search_results length_embedder example_index [''a'', ''bb''] ''qq'' 5 = Inr [''bb'', ''a'']"
    by (simp add: search_results_def length_embedder_def index_search_def example_index_def
        ntotal_def l2sqr_def upt_conv_Cons collect_results_filter)
  have c: "initialized ?r \<and> index ?r = Some example_index \<and> embedding_service ?r = Some length_embedder
           \<and> search_results length_embedder example_index (chunks_with_content ?r) ''qq'' 5
               = Inr [''bb'', ''a'']
           \<and> [''bb'', ''a''] \<noteq> []"
    using b by (simp add: ready_retriever_def)
  have d: "is_ready ready_rag \<and> faiss_index ready_rag = Some example_index
           \<and> text_chunks ready_rag = Some [''a'', ''bb'']
           \<and> ntotal example_index = length [''a'', ''bb'']
           \<and> length_embed_content ''qq'' = Inr [2, 1]
           \<and> length [2, 1 :: real] = faiss_d example_index \<and> (0::int) < 5"
    by (simp add: ready_rag_def ntotal_def example_index_def length_embed_content_def)
  from search_retrieves_min_k_n [of example_index "[''a'', ''bb'']" length_embedder "''qq''" "[2, 1]" "[]" 5
      length_embedder example_index "[''a'', ''bb'']" "''qq''" 5 "[''bb'', ''a'']" "[]" "[]"
      ?r example_index length_embedder "''qq''" 5 "[''bb'', ''a'']" example_disk
      ready_rag example_index "[''a'', ''bb'']" length_embed_content "''qq''" "[2, 1]" 5]
  have t: "search ?r example_disk ''qq'' 5 = (Inr (str_join ''\<newline>\<newline>'' [''bb'', ''a'']), ?r, example_disk)"
    and u: "\<exists>hits. search_faiss ready_rag length_embed_content ''qq'' 5 = Inr hits
              \<and> length hits = min (nat 5) (length [''a'', ''bb''])
              \<and> set (map hit_text hits) \<subseteq> set [''a'', ''bb'']"
    using c d by blast+
  have e: "length [''bb'', ''a''] = min (nat 5) (length [''a'', ''bb''])" by simp
  from t have t': "search ?r example_disk ''qq'' 5 = (Inr ''bb\<newline>\<newline>a'', ?r, example_disk)"
    by simp
  from u have u': "\<exists>hits. search_faiss ready_rag length_embed_content ''qq'' 5 = Inr hits
              \<and> length hits = min (nat 5) (length [''a'', ''bb''])" by blast
  from a b e t' u' show ?thesis by blast
qed

text \<open>
  C9. \<open>search\<close> and the agent tool \<open>retrieve_knowledge\<close> always return a string and raise
  nothing, from every state and on every input. Each failure has its fixed answer: no
  retriever; no index or no embedding service once the lazy initialisation is over; an
  exception of the embedding provider; an exception of the index query.
\<close>

theorem search_never_raises:
  "(\<exists>s. fst (search r fs query k) = Inr s)
   \<and> (\<exists>s. fst (retrieve_knowledge g fs query) = Inr s)
   \<and> fst (retrieve_knowledge None fs query) = Inr msg_no_retriever
   \<and> (index (if initialized r1 then r1 else fst (snd (initialize r1 fs1))) = None
        \<or> embedding_service (if initialized r1 then r1 else fst (snd (initialize r1 fs1))) = None
       \<longrightarrow> fst (search r1 fs1 query1 k1) = Inr msg_not_initialized)
   \<and> (initialized r2 \<and> index r2 = Some ix2 \<and> embedding_service r2 = Some svc2
        \<and> svc2 [query2] = Inl e2
       \<longrightarrow> search r2 fs2 query2 k2 = (Inr msg_search_error, r2, fs2))
   \<and> (initialized r3 \<and> index r3 = Some ix3 \<and> embedding_service r3 = Some svc3
        \<and> svc3 [query3] = Inr (v # rest) \<and> index_search ix3 v k3 = Inl e3
       \<longrightarrow> search r3 fs3 query3 k3 = (Inr msg_search_error, r3, fs3))"
proof (intro conjI impI)
  show "\<exists>s. fst (search r fs query k) = Inr s" by (rule search_returns)
  show "\<exists>s. fst (retrieve_knowledge g fs query) = Inr s" by (rule retrieve_knowledge_returns)
  show "fst (retrieve_knowledge None fs query) = Inr msg_no_retriever"
    by (simp add: retrieve_knowledge_def)
next
  assume "index (if initialized r1 then r1 else fst (snd (initialize r1 fs1))) = None
        \<or> embedding_service (if initialized r1 then r1 else fst (snd (initialize r1 fs1))) = None"
  then show "fst (search r1 fs1 query1 k1) = Inr msg_not_initialized"
    by (auto simp: search_unfold Let_def)
next
  assume "initialized r2 \<and> index r2 = Some ix2 \<and> embedding_service r2 = Some svc2
        \<and> svc2 [query2] = Inl e2"
  then show "search r2 fs2 query2 k2 = (Inr msg_search_error, r2, fs2)"
    by (simp add: search_unfold Let_def search_results_def)
next
  assume "initialized r3 \<and> index r3 = Some ix3 \<and> embedding_service r3 = Some svc3
        \<and> svc3 [query3] = Inr (v # rest) \<and> index_search ix3 v k3 = Inl e3"
  then show "search r3 fs3 query3 k3 = (Inr msg_search_error, r3, fs3)"
    by (simp add: search_unfold Let_def search_results_def)
qed

theorem search_never_raises_witness:
  "index (if initialized (FaissRetriever (Some length_embedder))
          then FaissRetriever (Some length_embedder)
          else fst (snd (initialize (FaissRetriever (Some length_embedder)) empty_disk))) = None
   \<and> fst (search (FaissRetriever (Some length_embedder)) empty_disk ''q'' 2) = Inr msg_not_initialized
   \<and> failing_embedder [''q''] = Inl ProviderError
   \<and> search (ready_retriever failing_embedder) example_disk ''q'' 2
       = (Inr msg_search_error, ready_retriever failing_embedder, example_disk)
   \<and> length_embedder [''q''] = Inr [[1, 1]]
   \<and> index_search example_index [1, 1] 0 = Inl AssertionError
   \<and> search (ready_retriever length_embedder) example_disk ''q'' 0
       = (Inr msg_search_error, ready_retriever length_embedder, example_disk)"
proof -
  let ?r = "FaissRetriever (Some length_embedder)"
  have a: "index (if initialized ?r then ?r else fst (snd (initialize ?r empty_disk))) = None"
    by (simp add: retriever_defs empty_disk_def)
  have b: "initialized (ready_retriever failing_embedder)
           \<and> index (ready_retriever failing_embedder) = Some example_index
           \<and> embedding_service (ready_retriever failing_embedder) = Some failing_embedder
           \<and> failing_embedder [''q''] = Inl ProviderError"
    by (simp add: ready_retriever_def failing_embedder_def)
  have c: "initialized (ready_retriever length_embedder)
           \<and> index (ready_retriever length_embedder) = Some example_index
           \<and> embedding_service (ready_retriever length_embedder) = Some length_embedder
           \<and> length_embedder [''q''] = Inr ([1, 1] # [])
           \<and> index_search example_index [1, 1] 0 = Inl AssertionError"
    by (simp add: ready_retriever_def length_embedder_def index_search_def example_index_def)
  from search_never_raises [of _ _ _ _ _ ?r empty_disk "''q''" 2
      "ready_retriever failing_embedder" example_index failing_embedder "''q''" ProviderError example_disk 2
      "ready_retriever length_embedder" example_index length_embedder "''q''" "[1, 1]" "[]" 0 AssertionError
      example_disk] a b c
  show ?thesis by simp
qed

text \<open>
  C10. Every chunk held in memory is a non-empty string without leading or trailing
  whitespace: this holds for a new retriever, is kept by every \<open>build\<close> and every \<open>load\<close>
  whatever path they take, and holds after a successful build and after a successful load
  from any state.
\<close>

theorem stored_chunks_stripped_nonempty:
  "list_all chunk_ok (chunks_with_content (FaissRetriever svc))
   \<and> (list_all chunk_ok (chunks_with_content r) \<longrightarrow>
        list_all chunk_ok (chunks_with_content (fst (snd (build r fs)))))
   \<and> (list_all chunk_ok (chunks_with_content r) \<longrightarrow>
        list_all chunk_ok (chunks_with_content (fst (snd (load r fs)))))
   \<and> (fst (build r1 fs1) = Inr Built \<longrightarrow>
        list_all chunk_ok (chunks_with_content (fst (snd (build r1 fs1)))))
   \<and> (fst (load r2 fs2) = Inr Loaded \<longrightarrow>
        list_all chunk_ok (chunks_with_content (fst (snd (load r2 fs2)))))"
proof (intro conjI impI)
  show "list_all chunk_ok (chunks_with_content (FaissRetriever svc))"
    by (simp add: FaissRetriever_def)
next
  assume "list_all chunk_ok (chunks_with_content r)"
  then show "list_all chunk_ok (chunks_with_content (fst (snd (build r fs))))"
    by (rule build_preserves_ok)
next
  assume "list_all chunk_ok (chunks_with_content r)"
  then show "list_all chunk_ok (chunks_with_content (fst (snd (load r fs))))"
    by (rule load_preserves_ok)
next
  assume b: "fst (build r1 fs1) = Inr Built"
  have "embedding_service r1 \<noteq> None \<and> knowledge_file fs1 \<noteq> None"
  proof (rule ccontr)
    assume "\<not> ?thesis"
    then consider "embedding_service r1 = None" | svc where "embedding_service r1 = Some svc" "knowledge_file fs1 = None"
      by auto
    then show False using b by cases (auto simp: build_def build_try_def)
  qed
  then show "list_all chunk_ok (chunks_with_content (fst (snd (build r1 fs1))))"
    by (auto simp: build_chunks list_all_iff stripped_chunks_ok)
next
  assume "fst (load r2 fs2) = Inr Loaded"
  then have "fst (load_try r2 fs2) = Inr ()" by (simp add: load_Loaded_iff)
  from load_try_success [OF this] this
  show "list_all chunk_ok (chunks_with_content (fst (snd (load r2 fs2))))"
    by (auto simp: load_state list_all_iff stripped_chunks_ok)
qed

theorem stored_chunks_stripped_nonempty_witness:
  "list_all chunk_ok (chunks_with_content (FaissRetriever (Some length_embedder)))
   \<and> fst (build (FaissRetriever (Some length_embedder)) example_disk) = Inr Built
   \<and> fst (load (FaissRetriever (Some length_embedder)) example_disk) = Inr Loaded
   \<and> list_all chunk_ok (chunks_with_content (fst (snd (build (FaissRetriever (Some length_embedder)) example_disk))))
   \<and> list_all chunk_ok (chunks_with_content (fst (snd (load (FaissRetriever (Some length_embedder)) example_disk))))"
proof -
  let ?r = "FaissRetriever (Some length_embedder)"
  have h0: "list_all chunk_ok (chunks_with_content ?r)" by (simp add: FaissRetriever_def)
  have h1: "fst (build ?r example_disk) = Inr Built" by (simp add: example_build)
  have h2: "fst (load ?r example_disk) = Inr Loaded" by (simp add: example_load)
  from stored_chunks_stripped_nonempty [of "Some length_embedder" ?r example_disk ?r example_disk ?r example_disk]
    h0 h1 h2
  show ?thesis by blast
qed

end
